theory Spec2Isabelle
  imports Complex_Main "HOL-Library.Sublist"
begin

section \<open>Python values and exceptions\<close>

text \<open>
  The consumer \<^verbatim>\<open>consumers/project_consumer_valenti.py\<close> reads JSON text, tallies
  one count per (season, author) pair in the module-level \<^verbatim>\<open>season_counts\<close> and redraws
  a stacked bar chart. Everything the program does beyond computing values is made
  explicit here: exceptions are values, the two-level \<^verbatim>\<open>defaultdict\<close> is an
  insertion-ordered association list that is passed along and returned, and the calls
  to the logger, to the plotting library and to the consumer are recorded in a trace.

  Exceptions. \<open>KeyboardInterrupt\<close> and \<open>SystemExit\<close> are the two that do not derive
  from Python's \<^verbatim>\<open>Exception\<close>; \<open>JSONDecodeError\<close> derives from \<open>ValueError\<close>, which
  matters only in that \<^verbatim>\<open>except json.JSONDecodeError\<close> does not catch a plain
  \<open>ValueError\<close>.
\<close>

datatype exn =
    JSONDecodeError | TypeError | ValueError | OverflowError | ZeroDivisionError | KeyError
  | IndexError | RecursionError | OtherError string | KeyboardInterrupt | SystemExit

fun is_Exception :: "exn \<Rightarrow> bool" where
  "is_Exception KeyboardInterrupt = False"
| "is_Exception SystemExit = False"
| "is_Exception _ = True"

text \<open>
  What \<^verbatim>\<open>json.loads\<close> returns: \<^verbatim>\<open>None\<close>, a bool, an int, a float, a str, a list or a
  dict with string keys. A finite float is the rational it denotes; the three floats
  that are not finite come from the literals \<^verbatim>\<open>NaN\<close>, \<^verbatim>\<open>Infinity\<close> and \<^verbatim>\<open>-Infinity\<close>, which
  \<^verbatim>\<open>json.loads\<close> accepts, and from numbers too large for a double. A string is the
  sequence of bytes of its UTF-8 encoding, so that equal strings are equal lists. A dict
  is an association list with distinct keys.
\<close>

datatype json =
    JNull | JBool bool | JInt int | JFloat rat | JNaN | JInfinity | JNegInfinity
  | JStr string | JArr "json list" | JObj "(string \<times> json) list"

text \<open>
  Dictionary keys. Python compares and hashes \<^verbatim>\<open>True\<close>, \<^verbatim>\<open>1\<close> and \<^verbatim>\<open>1.0\<close> as one key, so
  a finite numeric key is the number it denotes. An infinity equals only itself.
  \<^verbatim>\<open>json.loads\<close> returns the one object \<^verbatim>\<open>json.decoder.NaN\<close> for every \<^verbatim>\<open>NaN\<close>, and a dict
  finds a key that is the same object, so \<^verbatim>\<open>NaN\<close> is one key as well. Lists and dicts
  are unhashable and using one as a key raises \<open>TypeError\<close>.
\<close>

datatype pykey = KNone | KNum rat | KNaN | KInfinity | KNegInfinity | KStr string

fun to_key :: "json \<Rightarrow> exn + pykey" where
  "to_key JNull = Inr KNone"
| "to_key (JBool b) = Inr (KNum (if b then 1 else 0))"
| "to_key (JInt n) = Inr (KNum (of_int n))"
| "to_key (JFloat q) = Inr (KNum q)"
| "to_key JNaN = Inr KNaN"
| "to_key JInfinity = Inr KInfinity"
| "to_key JNegInfinity = Inr KNegInfinity"
| "to_key (JStr s) = Inr (KStr s)"
| "to_key (JArr _) = Inl TypeError"
| "to_key (JObj _) = Inl TypeError"

subsection \<open>The builtin \<^verbatim>\<open>int\<close>\<close>

text \<open>
  \<^verbatim>\<open>int(k)\<close> on a key. \<^verbatim>\<open>None\<close> raises \<open>TypeError\<close>; a finite number is truncated towards
  zero (\<^verbatim>\<open>int(True) = 1\<close>, \<^verbatim>\<open>int(-1.5) = -1\<close>); \<^verbatim>\<open>NaN\<close> raises \<open>ValueError\<close> and an infinity
  \<open>OverflowError\<close>. What \<^verbatim>\<open>int\<close> does on a string belongs to the interpreter (which
  characters it takes for white space and for digits, the underscores it allows, its
  limit on the number of digits) and is a parameter, \<open>int_str\<close>: it maps a string to
  the integer \<^verbatim>\<open>int\<close> returns, or to \<open>None\<close> where \<^verbatim>\<open>int\<close> raises \<open>ValueError\<close>.
\<close>

definition trunc :: "rat \<Rightarrow> int" where
  "trunc q = (if 0 \<le> q then \<lfloor>q\<rfloor> else \<lceil>q\<rceil>)"

fun py_int :: "(string \<Rightarrow> int option) \<Rightarrow> pykey \<Rightarrow> exn + int" where
  "py_int int_str KNone = Inl TypeError"
| "py_int int_str (KNum q) = Inr (trunc q)"
| "py_int int_str KNaN = Inl ValueError"
| "py_int int_str KInfinity = Inl OverflowError"
| "py_int int_str KNegInfinity = Inl OverflowError"
| "py_int int_str (KStr s) = (case int_str s of None \<Rightarrow> Inl ValueError | Some n \<Rightarrow> Inr n)"

subsection \<open>Floating point\<close>

text \<open>
  A finite double is the rational it denotes. \<open>double\<close> rounds a rational to the nearest
  number with a 53-bit significand, ties to even; the exponent range is not modelled,
  which is exact as long as magnitudes stay between \<open>2\<^sup>-\<^sup>1\<^sup>0\<^sup>2\<^sup>2\<close> and \<open>2\<^sup>1\<^sup>0\<^sup>2\<^sup>3\<close>. True
  division of two ints, conversion of an int, and float multiplication and addition are
  each the exact result rounded once, as IEEE 754 and CPython specify.
\<close>

definition round_half_even :: "rat \<Rightarrow> int" where
  "round_half_even x =
     (let n = \<lfloor>x\<rfloor>; r = x - of_int n
      in if r < 1 / 2 then n else if 1 / 2 < r then n + 1 else if even n then n else n + 1)"

function bit_length :: "int \<Rightarrow> int" where
  "bit_length n = (if n \<le> 0 then 0 else 1 + bit_length (n div 2))"
  by pat_completeness auto
termination
  by (relation "measure nat") auto

declare bit_length.simps [simp del]

definition ilog2 :: "rat \<Rightarrow> int" where
  "ilog2 x =
     (let (p, q) = quotient_of x; d = bit_length p - bit_length q
      in if 2 powi d \<le> x then d else d - 1)"

definition double :: "rat \<Rightarrow> rat" where
  "double x =
     (if x = 0 then 0
      else let a = \<bar>x\<bar>; e = ilog2 a; m = round_half_even (a * 2 powi (52 - e))
           in sgn x * of_int m * 2 powi (e - 52))"

definition py_truediv :: "int \<Rightarrow> int \<Rightarrow> exn + rat" where
  "py_truediv a b = (if b = 0 then Inl ZeroDivisionError else Inr (double (of_int a / of_int b)))"

definition float_of_int :: "int \<Rightarrow> rat" where
  "float_of_int n = double (of_int n)"

definition float_mul :: "rat \<Rightarrow> rat \<Rightarrow> rat" where
  "float_mul x y = double (x * y)"

definition float_add :: "rat \<Rightarrow> rat \<Rightarrow> rat" where
  "float_add x y = double (x + y)"

text \<open>
  The format specification \<^verbatim>\<open>.1f\<close>: the exact value of the double rounded to one decimal,
  ties to even, printed with its sign, its integer digits, a point and one digit.
\<close>

fun dec_str :: "nat \<Rightarrow> string" where
  "dec_str n = (if n < 10 then [char_of (48 + n)] else dec_str (n div 10) @ [char_of (48 + n mod 10)])"

declare dec_str.simps [simp del]

definition format_1f :: "rat \<Rightarrow> string" where
  "format_1f x =
     (let t = nat (round_half_even (\<bar>x\<bar> * 10))
      in (if x < 0 then ''-'' else '''') @ dec_str (t div 10) @ ''.'' @ dec_str (t mod 10))"

section \<open>The count table\<close>

text \<open>
  \<^verbatim>\<open>season_counts = defaultdict(lambda: defaultdict(int))\<close>. A dict keeps its keys in
  insertion order, which the stable sort of the renderer observes, so it is an
  association list: \<open>dict_setitem\<close> overwrites in place or appends. Reading a missing
  key of a \<^verbatim>\<open>defaultdict\<close> with \<^verbatim>\<open>d[k]\<close> stores the default under the key and returns
  it (\<open>dd_getitem\<close>), whereas \<^verbatim>\<open>d.get(k, v)\<close> stores nothing (\<open>dict_get\<close>).
\<close>

type_synonym counts = "(pykey \<times> (pykey \<times> int) list) list"

fun dict_setitem :: "('k \<times> 'v) list \<Rightarrow> 'k \<Rightarrow> 'v \<Rightarrow> ('k \<times> 'v) list" where
  "dict_setitem [] k v = [(k, v)]"
| "dict_setitem (p # ps) k v = (if fst p = k then (k, v) # ps else p # dict_setitem ps k v)"

definition dict_get :: "('k \<times> 'v) list \<Rightarrow> 'k \<Rightarrow> 'v \<Rightarrow> 'v" where
  "dict_get d k dflt = (case map_of d k of None \<Rightarrow> dflt | Some v \<Rightarrow> v)"

definition dict_getitem :: "('k \<times> 'v) list \<Rightarrow> 'k \<Rightarrow> exn + 'v" where
  "dict_getitem d k = (case map_of d k of None \<Rightarrow> Inl KeyError | Some v \<Rightarrow> Inr v)"

definition dd_getitem :: "'v \<Rightarrow> ('k \<times> 'v) list \<Rightarrow> 'k \<Rightarrow> 'v \<times> ('k \<times> 'v) list" where
  "dd_getitem dflt d k =
     (case map_of d k of None \<Rightarrow> (dflt, dict_setitem d k dflt) | Some v \<Rightarrow> (v, d))"

definition list_getitem :: "'a list \<Rightarrow> nat \<Rightarrow> exn + 'a" where
  "list_getitem xs i = (if i < length xs then Inr (xs ! i) else Inl IndexError)"

text \<open>
  \<^verbatim>\<open>season_counts[season][author] += 1\<close>, step by step: the outer subscript hashes
  \<open>season\<close> and creates the inner dict when it is missing; the inner subscript hashes
  \<open>author\<close> and creates the count 0 when it is missing; then the count plus one is
  stored. When \<open>author\<close> is unhashable the inner dict of a new season has already been
  created.
\<close>

definition increment :: "json \<Rightarrow> json \<Rightarrow> counts \<Rightarrow> exn option \<times> counts" where
  "increment season author sc =
     (case to_key season of
        Inl e \<Rightarrow> (Some e, sc)
      | Inr s \<Rightarrow>
          let (inner, sc1) = dd_getitem [] sc s
          in case to_key author of
               Inl e \<Rightarrow> (Some e, sc1)
             | Inr a \<Rightarrow>
                 let (old, inner1) = dd_getitem 0 inner a;
                     inner2 = dict_setitem inner1 a (old + 1)
                 in (None, dict_setitem sc1 s inner2))"

text \<open>The count of a pair as the renderer reads it: zero when the pair is absent.\<close>

definition count_of :: "counts \<Rightarrow> pykey \<Rightarrow> pykey \<Rightarrow> int" where
  "count_of sc s a = (case map_of sc s of None \<Rightarrow> 0 | Some inner \<Rightarrow> dict_get inner a 0)"

definition counts_nonneg :: "counts \<Rightarrow> bool" where
  "counts_nonneg sc \<longleftrightarrow> list_all (\<lambda>(s, inner). list_all (\<lambda>(a, n). 0 \<le> n) inner) sc"

section \<open>The world: count table and trace of effects\<close>

datatype plot_call =
    Ax_clear
  | Ax_bar "pykey list" "int list" "int list" string string
  | Ax_text pykey rat string string
  | Set_xlabel string | Set_ylabel string | Set_title string
  | Set_xticks "pykey list" | Set_xticklabels "pykey list"
  | Legend | Tight_layout | Draw | Pause

datatype level = DEBUG | INFO | WARNING | ERROR

datatype log_msg =
    Kafka_topic string | Kafka_group_id string
  | Raw_message string | Processed_JSON json | Message_received json json
  | Updated_season_counts counts | Chart_updated string
  | Expected_dict json | Invalid_JSON string | Error_processing exn
  | Start_consumer | Consumer_topic_group string string | Polling string
  | Received_at_offset nat string | Interrupted | Error_consuming exn
  | Consumer_closed string | End_consumer string string

datatype event = Log level log_msg | Plot plot_call | Consumer_close

record world =
  season_counts :: counts
  trace :: "event list"

definition log :: "world \<Rightarrow> level \<Rightarrow> log_msg \<Rightarrow> world" where
  "log w l m = w\<lparr>trace := trace w @ [Log l m]\<rparr>"

definition plot :: "world \<Rightarrow> plot_call list \<Rightarrow> world" where
  "plot w cs = w\<lparr>trace := trace w @ map Plot cs\<rparr>"

definition plot_calls :: "event list \<Rightarrow> plot_call list" where
  "plot_calls evs = concat (map (\<lambda>e. case e of Plot c \<Rightarrow> [c] | _ \<Rightarrow> []) evs)"

section \<open>The renderer\<close>

definition author_colors :: "(string \<times> string) list" where
  "author_colors =
     [(''Homer'', ''yellow''), (''Bart'', ''red''), (''Marge'', ''blue''),
      (''Lisa'', ''black''), (''Maggie'', ''pink'')]"

text \<open>
  \<^verbatim>\<open>sorted(season_counts.keys(), key=int)\<close>: the key function is applied to every key in
  dict order, so the first key that \<^verbatim>\<open>int\<close> rejects decides the exception; the sort is
  stable.
\<close>

fun int_keys :: "(string \<Rightarrow> int option) \<Rightarrow> pykey list \<Rightarrow> exn + (int \<times> pykey) list" where
  "int_keys int_str [] = Inr []"
| "int_keys int_str (k # ks) =
     (case py_int int_str k of
        Inl e \<Rightarrow> Inl e
      | Inr n \<Rightarrow> (case int_keys int_str ks of Inl e \<Rightarrow> Inl e | Inr r \<Rightarrow> Inr ((n, k) # r)))"

definition sorted_by_int :: "(string \<Rightarrow> int option) \<Rightarrow> pykey list \<Rightarrow> exn + pykey list" where
  "sorted_by_int int_str ks =
     (case int_keys int_str ks of Inl e \<Rightarrow> Inl e | Inr dec \<Rightarrow> Inr (map snd (sort_key fst dec)))"

text \<open>
  \<^verbatim>\<open>{season: sum(season_counts[season].values()) for season in sorted_seasons}\<close> and
  \<^verbatim>\<open>[season_counts[season].get(author, 0) for season in sorted_seasons]\<close>. Both
  subscript the \<^verbatim>\<open>defaultdict\<close>, so the table is passed through.
\<close>

fun season_totals ::
  "counts \<Rightarrow> pykey list \<Rightarrow> (pykey \<times> int) list \<Rightarrow> (pykey \<times> int) list \<times> counts" where
  "season_totals sc [] acc = (acc, sc)"
| "season_totals sc (s # ss) acc =
     (let (inner, sc1) = dd_getitem [] sc s
      in season_totals sc1 ss (dict_setitem acc s (sum_list (map snd inner))))"

fun author_message_counts :: "counts \<Rightarrow> pykey \<Rightarrow> pykey list \<Rightarrow> int list \<times> counts" where
  "author_message_counts sc a [] = ([], sc)"
| "author_message_counts sc a (s # ss) =
     (let (inner, sc1) = dd_getitem [] sc s;
          (rest, sc2) = author_message_counts sc1 a ss
      in (dict_get inner a 0 # rest, sc2))"

text \<open>The label of one segment (lines 54 to 56), or the exception one of its steps raises.\<close>

definition percentage_of :: "int \<Rightarrow> int \<Rightarrow> exn + rat" where
  "percentage_of count season_total =
     (case py_truediv count season_total of Inl e \<Rightarrow> Inl e | Inr q \<Rightarrow> Inr (float_mul q 100))"

definition segment_text ::
  "pykey list \<Rightarrow> (pykey \<times> int) list \<Rightarrow> int list \<Rightarrow> string \<Rightarrow> nat \<Rightarrow> int \<Rightarrow> exn + plot_call" where
  "segment_text sorted_seasons totals bottom_counts author i count =
     (case list_getitem sorted_seasons i of Inl e \<Rightarrow> Inl e | Inr season \<Rightarrow>
      case dict_getitem totals season of Inl e \<Rightarrow> Inl e | Inr season_total \<Rightarrow>
      case percentage_of count season_total of Inl e \<Rightarrow> Inl e | Inr percentage \<Rightarrow>
      let text_color = (if author \<in> set [''Homer'', ''Maggie''] then ''black'' else ''white'')
      in case list_getitem bottom_counts i of Inl e \<Rightarrow> Inl e | Inr bottom \<Rightarrow>
         case py_truediv count 2 of Inl e \<Rightarrow> Inl e | Inr half \<Rightarrow>
           Inr (Ax_text season (float_add (float_of_int bottom) half)
                  (format_1f percentage @ ''%'') text_color))"

text \<open>\<^verbatim>\<open>for i, count in enumerate(author_message_counts)\<close>, from index \<open>i\<close> on.\<close>

fun percentage_labels ::
  "pykey list \<Rightarrow> (pykey \<times> int) list \<Rightarrow> int list \<Rightarrow> string \<Rightarrow> nat \<Rightarrow> int list
     \<Rightarrow> plot_call list \<times> exn option" where
  "percentage_labels ss totals bottoms author i [] = ([], None)"
| "percentage_labels ss totals bottoms author i (count # rest) =
     (if count > 0 then
        (case segment_text ss totals bottoms author i count of
           Inl e \<Rightarrow> ([], Some e)
         | Inr t \<Rightarrow>
             let (ts, r) = percentage_labels ss totals bottoms author (Suc i) rest
             in (t # ts, r))
      else percentage_labels ss totals bottoms author (Suc i) rest)"

text \<open>\<^verbatim>\<open>for author, color in author_colors.items()\<close> (lines 48 to 58).\<close>

fun author_loop ::
  "(string \<times> string) list \<Rightarrow> pykey list \<Rightarrow> (pykey \<times> int) list \<Rightarrow> int list \<Rightarrow> counts
     \<Rightarrow> plot_call list \<times> exn option \<times> counts" where
  "author_loop [] ss totals bottom_counts sc = ([], None, sc)"
| "author_loop ((author, color) # rest) ss totals bottom_counts sc =
     (let (cnts, sc1) = author_message_counts sc (KStr author) ss;
          bar = Ax_bar ss cnts bottom_counts color author;
          (texts, r) = percentage_labels ss totals bottom_counts author 0 cnts
      in case r of
           Some e \<Rightarrow> (bar # texts, Some e, sc1)
         | None \<Rightarrow>
             let bottom_counts' = map (\<lambda>(bottom, count). bottom + count) (zip bottom_counts cnts);
                 (calls, r', sc2) = author_loop rest ss totals bottom_counts' sc1
             in (bar # texts @ calls, r', sc2))"

text \<open>
  \<^verbatim>\<open>update_chart\<close>. The calls into the plotting library are recorded, not interpreted,
  and are taken not to raise. An exception leaves the calls made so far in the trace.
\<close>

definition update_chart :: "(string \<Rightarrow> int option) \<Rightarrow> world \<Rightarrow> exn option \<times> world" where
  "update_chart int_str w =
     (let w1 = plot w [Ax_clear]
      in case sorted_by_int int_str (map fst (season_counts w1)) of
           Inl e \<Rightarrow> (Some e, w1)
         | Inr sorted_seasons \<Rightarrow>
             let bottom_counts = replicate (length sorted_seasons) 0;
                 (total_messages_per_season, sc1) =
                    season_totals (season_counts w1) sorted_seasons [];
                 (calls, r, sc2) =
                    author_loop author_colors sorted_seasons total_messages_per_season
                      bottom_counts sc1;
                 w2 = plot (w1\<lparr>season_counts := sc2\<rparr>) calls
             in case r of
                  Some e \<Rightarrow> (Some e, w2)
                | None \<Rightarrow>
                    (None, plot w2
                       [Set_xlabel ''Seasons'', Set_ylabel ''Message Counts'',
                        Set_title ''The Simpsons Most Memorable Leader (Seasons 1-30)'',
                        Set_xticks sorted_seasons, Set_xticklabels sorted_seasons,
                        Legend, Tight_layout, Draw, Pause]))"

section \<open>Processing one message\<close>

text \<open>
  \<^verbatim>\<open>json.loads\<close> belongs to the standard library and is a parameter: it maps the text
  either to the decoded value or to the exception it raises. The second parameter is
  \<^verbatim>\<open>int\<close> on strings, which the redraw uses. \<open>process_message_try\<close> is
  the body of the \<^verbatim>\<open>try\<close> statement and returns the exception that leaves it, if any;
  \<open>process_message\<close> adds the two handlers. An exception that is no \<^verbatim>\<open>Exception\<close>
  passes through both.
\<close>

definition process_message_try ::
  "(string \<Rightarrow> exn + json) \<Rightarrow> (string \<Rightarrow> int option) \<Rightarrow> string \<Rightarrow> world
     \<Rightarrow> exn option \<times> world" where
  "process_message_try loads int_str message w =
     (let w1 = log w DEBUG (Raw_message message)
      in case loads message of
           Inl e \<Rightarrow> (Some e, w1)
         | Inr message_dict \<Rightarrow>
             let w2 = log w1 INFO (Processed_JSON message_dict)
             in case message_dict of
                  JObj kvs \<Rightarrow>
                    let author = dict_get kvs ''author'' (JStr ''unknown'');
                        season = dict_get kvs ''season'' (JStr ''unknown'');
                        w3 = log w2 INFO (Message_received author season);
                        (r, sc) = increment season author (season_counts w3);
                        w4 = w3\<lparr>season_counts := sc\<rparr>
                    in (case r of
                          Some e \<Rightarrow> (Some e, w4)
                        | None \<Rightarrow>
                            let w5 = log w4 INFO (Updated_season_counts sc)
                            in case update_chart int_str w5 of
                                 (Some e, w6) \<Rightarrow> (Some e, w6)
                               | (None, w6) \<Rightarrow> (None, log w6 INFO (Chart_updated message)))
                | _ \<Rightarrow> (None, log w2 ERROR (Expected_dict message_dict)))"

definition process_message ::
  "(string \<Rightarrow> exn + json) \<Rightarrow> (string \<Rightarrow> int option) \<Rightarrow> string \<Rightarrow> world
     \<Rightarrow> exn option \<times> world" where
  "process_message loads int_str message w =
     (case process_message_try loads int_str message w of
        (None, w') \<Rightarrow> (None, w')
      | (Some e, w') \<Rightarrow>
          if e = JSONDecodeError then (None, log w' ERROR (Invalid_JSON message))
          else if is_Exception e then (None, log w' ERROR (Error_processing e))
          else (Some e, w'))"

section \<open>The consumption loop\<close>

text \<open>
  The consumer built by \<^verbatim>\<open>create_kafka_consumer\<close> is an external collaborator. What the
  loop sees of it is the outcome of each pull: a message with its offset and value, or
  an exception raised while waiting; when the outcomes are used up the iterator is
  exhausted. A loop that leaves is therefore one with finitely many pulls.
\<close>

datatype pull = Message nat string | Raises exn

definition get_kafka_topic :: "(string \<Rightarrow> string option) \<Rightarrow> world \<Rightarrow> string \<times> world" where
  "get_kafka_topic getenv w =
     (let topic = (case getenv ''BUZZ_TOPIC'' of None \<Rightarrow> ''unknown_topic'' | Some v \<Rightarrow> v)
      in (topic, log w INFO (Kafka_topic topic)))"

definition get_kafka_consumer_group_id :: "(string \<Rightarrow> string option) \<Rightarrow> world \<Rightarrow> string \<times> world" where
  "get_kafka_consumer_group_id getenv w =
     (let group_id =
            (case getenv ''BUZZ_CONSUMER_GROUP_ID'' of None \<Rightarrow> ''default_group'' | Some v \<Rightarrow> v)
      in (group_id, log w INFO (Kafka_group_id group_id)))"

fun consume ::
  "(string \<Rightarrow> exn + json) \<Rightarrow> (string \<Rightarrow> int option) \<Rightarrow> pull list \<Rightarrow> world
     \<Rightarrow> exn option \<times> world" where
  "consume loads int_str [] w = (None, w)"
| "consume loads int_str (Raises e # rest) w = (Some e, w)"
| "consume loads int_str (Message offset message_str # rest) w =
     (let w1 = log w DEBUG (Received_at_offset offset message_str)
      in case process_message loads int_str message_str w1 of
           (Some e, w2) \<Rightarrow> (Some e, w2)
         | (None, w2) \<Rightarrow> consume loads int_str rest w2)"

text \<open>
  \<^verbatim>\<open>main\<close>: the \<^verbatim>\<open>try\<close> statement around the loop with its two handlers and its
  \<^verbatim>\<open>finally\<close> clause. The result is the exception that leaves \<^verbatim>\<open>main\<close>, if any.
\<close>

definition main ::
  "(string \<Rightarrow> exn + json) \<Rightarrow> (string \<Rightarrow> int option) \<Rightarrow> (string \<Rightarrow> string option)
     \<Rightarrow> pull list \<Rightarrow> world \<Rightarrow> exn option \<times> world" where
  "main loads int_str getenv consumer w =
     (let w1 = log w INFO Start_consumer;
          (topic, w2) = get_kafka_topic getenv w1;
          (group_id, w3) = get_kafka_consumer_group_id getenv w2;
          w4 = log w3 INFO (Consumer_topic_group topic group_id);
          w5 = log w4 INFO (Polling topic);
          (r, w6) = consume loads int_str consumer w5;
          (r', w7) =
             (case r of
                None \<Rightarrow> (None, w6)
              | Some e \<Rightarrow>
                  if e = KeyboardInterrupt then (None, log w6 WARNING Interrupted)
                  else if is_Exception e then (None, log w6 ERROR (Error_consuming e))
                  else (Some e, w6));
          w8 = log (w7\<lparr>trace := trace w7 @ [Consumer_close]\<rparr>) INFO (Consumer_closed topic)
      in case r' of
           Some e \<Rightarrow> (Some e, w8)
         | None \<Rightarrow> (None, log w8 INFO (End_consumer topic group_id)))"

section \<open>Observations\<close>

text \<open>
  What a call adds to the trace, and what the statements below read off the plotting
  calls: the positions on the x axis that a call is given, the legend labels of the
  bars, and the season and text of the labels.
\<close>

definition emitted :: "world \<Rightarrow> world \<Rightarrow> event list" where
  "emitted w w' = drop (length (trace w)) (trace w')"

fun x_positions :: "plot_call \<Rightarrow> pykey list option" where
  "x_positions (Ax_bar xs heights bottoms color label) = Some xs"
| "x_positions (Set_xticks xs) = Some xs"
| "x_positions (Set_xticklabels xs) = Some xs"
| "x_positions _ = None"

fun bar_labels :: "plot_call list \<Rightarrow> string list" where
  "bar_labels [] = []"
| "bar_labels (Ax_bar xs heights bottoms color label # cs) = label # bar_labels cs"
| "bar_labels (_ # cs) = bar_labels cs"

fun text_labels :: "plot_call list \<Rightarrow> (pykey \<times> string) list" where
  "text_labels [] = []"
| "text_labels (Ax_text season y label color # cs) = (season, label) # text_labels cs"
| "text_labels (_ # cs) = text_labels cs"

text \<open>
  The total of a season as \<^verbatim>\<open>sum(season_counts[season].values())\<close> computes it, the text
  of a label as lines 54 and 56 compute it, and the percentage as the specification
  words it: one hundred times the count over the total of the group.
\<close>

definition season_total :: "counts \<Rightarrow> pykey \<Rightarrow> int" where
  "season_total sc s = sum_list (map snd (dict_get sc s []))"



definition closes :: "event list \<Rightarrow> nat" where
  "closes evs = length (filter (\<lambda>e. e = Consumer_close) evs)"

definition int_of_key :: "(string \<Rightarrow> int option) \<Rightarrow> pykey \<Rightarrow> int" where
  "int_of_key int_str k = (case py_int int_str k of Inl e \<Rightarrow> 0 | Inr n \<Rightarrow> n)"

definition init :: world where
  "init = \<lparr>season_counts = [], trace = []\<rparr>"

section \<open>Sample inputs\<close>

text \<open>
  The values \<^verbatim>\<open>json.loads\<close> returns on a few texts, for the examples below; every other
  text stands for one that is not JSON. Likewise the values \<^verbatim>\<open>int\<close> returns on the four
  strings the examples use as seasons; every other string stands for one that \<^verbatim>\<open>int\<close>
  rejects, as it rejects \<open>unknown\<close>.
\<close>

definition sample_loads :: "string \<Rightarrow> exn + json" where
  \<open>sample_loads text =
     (if text = ''{"author": "Homer", "season": "1"}''
        then Inr (JObj [(''author'', JStr ''Homer''), (''season'', JStr ''1'')])
      else if text = ''{"author": "Ned", "season": "3"}''
        then Inr (JObj [(''author'', JStr ''Ned''), (''season'', JStr ''3'')])
      else if text = ''{"author": "Bart"}''
        then Inr (JObj [(''author'', JStr ''Bart'')])
      else if text = ''[1, 2]''
        then Inr (JArr [JInt 1, JInt 2])
      else Inl JSONDecodeError)\<close>

definition sample_int :: "string \<Rightarrow> int option" where
  "sample_int s =
     (if s = ''1'' then Some 1 else if s = ''2'' then Some 2 else if s = ''3'' then Some 3
      else if s = ''10'' then Some 10 else None)"

section \<open>Basic facts\<close>

lemma season_counts_log [simp]: "season_counts (log w l m) = season_counts w"
  by (simp add: log_def)

lemma trace_log [simp]: "trace (log w l m) = trace w @ [Log l m]"
  by (simp add: log_def)

lemma season_counts_plot [simp]: "season_counts (plot w cs) = season_counts w"
  by (simp add: plot_def)

lemma trace_plot [simp]: "trace (plot w cs) = trace w @ map Plot cs"
  by (simp add: plot_def)

lemma map_of_dict_setitem: "map_of (dict_setitem d k v) = (map_of d)(k \<mapsto> v)"
  by (induction d) auto

lemma keys_dict_setitem:
  "map fst (dict_setitem d k v) = (if k \<in> set (map fst d) then map fst d else map fst d @ [k])"
  by (induction d) auto

lemma dd_getitem_present:
  "k \<in> set (map fst d) \<Longrightarrow> snd (dd_getitem dflt d k) = d"
  by (auto simp: dd_getitem_def map_of_eq_None_iff split: option.splits)

lemma dd_getitem_value:
  "fst (dd_getitem dflt d k) = dict_get d k dflt"
  by (simp add: dd_getitem_def dict_get_def split: option.splits)

lemma season_totals_counts:
  "set ss \<subseteq> set (map fst sc) \<Longrightarrow> snd (season_totals sc ss acc) = sc"
proof (induction ss arbitrary: acc)
  case Nil
  then show ?case by simp
next
  case (Cons s ss)
  then have "snd (dd_getitem [] sc s) = sc"
    by (simp add: dd_getitem_present)
  with Cons show ?case
    by (simp add: split_beta)
qed

lemma author_message_counts_counts:
  "set ss \<subseteq> set (map fst sc) \<Longrightarrow> snd (author_message_counts sc a ss) = sc"
proof (induction ss)
  case Nil
  then show ?case by simp
next
  case (Cons s ss)
  then have "snd (dd_getitem [] sc s) = sc"
    by (simp add: dd_getitem_present)
  with Cons show ?case
    by (simp add: split_beta)
qed

lemma author_loop_counts:
  "set ss \<subseteq> set (map fst sc) \<Longrightarrow> snd (snd (author_loop acs ss totals bottoms sc)) = sc"
proof (induction acs arbitrary: bottoms)
  case Nil
  then show ?case by simp
next
  case (Cons ac acs)
  obtain author color where ac: "ac = (author, color)" by (cases ac)
  have "snd (author_message_counts sc (KStr author) ss) = sc"
    using Cons.prems by (rule author_message_counts_counts)
  with Cons show ?case
    by (simp add: ac split_beta Let_def split: option.splits)
qed

lemma int_keys_snd: "int_keys int_str ks = Inr dec \<Longrightarrow> map snd dec = ks"
  by (induction ks arbitrary: dec) (auto split: sum.splits)

lemma sorted_by_int_set: "sorted_by_int int_str ks = Inr ss \<Longrightarrow> set ss = set ks"
proof -
  assume a: "sorted_by_int int_str ks = Inr ss"
  then obtain dec where d: "int_keys int_str ks = Inr dec" and ss: "ss = map snd (sort_key fst dec)"
    by (auto simp: sorted_by_int_def split: sum.splits)
  have "set ss = snd ` set dec" using ss by simp
  also have "\<dots> = set (map snd dec)" by simp
  finally show ?thesis using int_keys_snd [OF d] by simp
qed

lemma update_chart_counts: "season_counts (snd (update_chart int_str w)) = season_counts w"
proof (cases "sorted_by_int int_str (map fst (season_counts w))")
  case (Inl e)
  then show ?thesis by (simp add: update_chart_def)
next
  case (Inr ss)
  then have sub: "set ss \<subseteq> set (map fst (season_counts w))"
    using sorted_by_int_set by blast
  have 1: "snd (season_totals (season_counts w) ss []) = season_counts w"
    using sub by (rule season_totals_counts)
  have 2: "snd (snd (author_loop author_colors ss totals bottoms (season_counts w))) = season_counts w"
    for totals bottoms
    using sub by (rule author_loop_counts)
  show ?thesis
    using Inr 1 2 by (simp add: update_chart_def split_beta Let_def split: option.splits)
qed

lemma map_of_dd_getitem:
  "map_of (snd (dd_getitem dflt d k)) = (map_of d)(k \<mapsto> dict_get d k dflt)"
  by (auto simp: dd_getitem_def dict_get_def map_of_dict_setitem split: option.splits)

lemma count_of_dd_getitem: "count_of (snd (dd_getitem [] sc s0)) s a = count_of sc s a"
  by (simp add: count_of_def map_of_dd_getitem dict_get_def split: option.splits)

lemma increment_unhashable_season:
  "to_key season = Inl e \<Longrightarrow> increment season author sc = (Some e, sc)"
  by (simp add: increment_def)

lemma increment_unhashable_author:
  "to_key season = Inr s0 \<Longrightarrow> to_key author = Inl e \<Longrightarrow>
   increment season author sc = (Some e, snd (dd_getitem [] sc s0))"
  by (simp add: increment_def split_beta)

lemma increment_ok:
  "to_key season = Inr s0 \<Longrightarrow> to_key author = Inr a0 \<Longrightarrow> fst (increment season author sc) = None"
  by (simp add: increment_def split_beta Let_def)

lemma count_of_increment:
  assumes "to_key season = Inr s0" and "to_key author = Inr a0"
  shows "count_of (snd (increment season author sc)) s a =
         count_of sc s a + (if s = s0 \<and> a = a0 then 1 else 0)"
  using assms
  by (auto simp: increment_def split_beta Let_def count_of_def map_of_dict_setitem
      map_of_dd_getitem dd_getitem_value dict_get_def split: option.splits)

lemma to_key_cases: "to_key v = Inl e \<Longrightarrow> e = TypeError"
  by (cases v) auto

lemma count_of_increment_any:
  "(\<forall>s a. count_of (snd (increment season author sc)) s a = count_of sc s a) \<or>
   (\<exists>s0 a0. \<forall>s a. count_of (snd (increment season author sc)) s a =
       count_of sc s a + (if s = s0 \<and> a = a0 then 1 else 0))"
proof (cases "to_key season")
  case (Inl e)
  then show ?thesis by (simp add: increment_unhashable_season)
next
  case s0: (Inr s0)
  show ?thesis
  proof (cases "to_key author")
    case (Inl e)
    then show ?thesis using s0 by (simp add: increment_unhashable_author count_of_dd_getitem)
  next
    case (Inr a0)
    then show ?thesis using s0 count_of_increment by blast
  qed
qed

lemma update_chart_counts_eq:
  "update_chart int_str w = (r, w') \<Longrightarrow> season_counts w' = season_counts w"
  using update_chart_counts [of int_str w] by simp

lemma process_message_handlers_counts:
  "season_counts (snd (process_message loads int_str message w)) =
   season_counts (snd (process_message_try loads int_str message w))"
  by (simp add: process_message_def split: prod.splits option.splits)

lemma process_message_try_counts:
  "season_counts (snd (process_message_try loads int_str message w)) =
     (case loads message of
        Inr (JObj kvs) \<Rightarrow>
          snd (increment (dict_get kvs ''season'' (JStr ''unknown''))
                 (dict_get kvs ''author'' (JStr ''unknown'')) (season_counts w))
      | _ \<Rightarrow> season_counts w)"
  by (auto simp: process_message_try_def Let_def split_beta update_chart_counts
      split: sum.splits json.splits option.splits)

lemma process_message_counts:
  "season_counts (snd (process_message loads int_str message w)) =
     (case loads message of
        Inr (JObj kvs) \<Rightarrow>
          snd (increment (dict_get kvs ''season'' (JStr ''unknown''))
                 (dict_get kvs ''author'' (JStr ''unknown'')) (season_counts w))
      | _ \<Rightarrow> season_counts w)"
  by (simp only: process_message_handlers_counts process_message_try_counts)

section \<open>What the operations add to the trace\<close>

lemma closes_append [simp]: "closes (xs @ ys) = closes xs + closes ys"
  by (simp add: closes_def)

lemma closes_Plot [simp]: "closes (map Plot cs) = 0"
  by (induction cs) (simp_all add: closes_def)

lemma closes_Cons_Log [simp]: "closes (Log l m # evs) = closes evs"
  by (simp add: closes_def)

lemma closes_Cons_Plot [simp]: "closes (Plot c # evs) = closes evs"
  by (simp add: closes_def)

lemma closes_Cons_close [simp]: "closes (Consumer_close # evs) = Suc (closes evs)"
  by (simp add: closes_def)

lemma closes_Nil [simp]: "closes [] = 0"
  by (simp add: closes_def)

lemma update_chart_trace: "\<exists>cs. trace (snd (update_chart int_str w)) = trace w @ map Plot cs"
proof (cases "sorted_by_int int_str (map fst (season_counts w))")
  case (Inl e)
  then have "trace (snd (update_chart int_str w)) = trace w @ map Plot [Ax_clear]"
    by (simp add: update_chart_def)
  then show ?thesis by blast
next
  case (Inr ss)
  obtain totals sc1 where t: "season_totals (season_counts w) ss [] = (totals, sc1)"
    by (cases "season_totals (season_counts w) ss []")
  obtain calls r sc2 where a:
    "author_loop author_colors ss totals (replicate (length ss) 0) sc1 = (calls, r, sc2)"
    by (cases "author_loop author_colors ss totals (replicate (length ss) 0) sc1")
  show ?thesis
  proof (cases r)
    case None
    then have "trace (snd (update_chart int_str w)) = trace w @ map Plot (Ax_clear # calls @
        [Set_xlabel ''Seasons'', Set_ylabel ''Message Counts'',
         Set_title ''The Simpsons Most Memorable Leader (Seasons 1-30)'',
         Set_xticks ss, Set_xticklabels ss, Legend, Tight_layout, Draw, Pause])"
      using Inr t a by (simp add: update_chart_def)
    then show ?thesis by blast
  next
    case (Some e)
    then have "trace (snd (update_chart int_str w)) = trace w @ map Plot (Ax_clear # calls)"
      using Inr t a by (simp add: update_chart_def)
    then show ?thesis by blast
  qed
qed

lemma update_chart_closes: "closes (trace (snd (update_chart int_str w))) = closes (trace w)"
  using update_chart_trace [of int_str w] by auto

lemma process_message_try_closes:
  "closes (trace (snd (process_message_try loads int_str message w))) = closes (trace w)"
  by (auto simp: process_message_try_def Let_def split_beta update_chart_closes
      split: sum.splits json.splits option.splits)

lemma process_message_closes:
  "closes (trace (snd (process_message loads int_str message w))) = closes (trace w)"
  using process_message_try_closes [of loads int_str message w]
  by (auto simp: process_message_def split: prod.splits option.splits)

lemma consume_closes: "closes (trace (snd (consume loads int_str consumer w))) = closes (trace w)"
proof (induction loads int_str consumer w rule: consume.induct)
  case (1 loads int_str w)
  then show ?case by simp
next
  case (2 loads int_str e rest w)
  then show ?case by simp
next
  case (3 loads int_str offset message_str rest w)
  let ?w1 = "log w DEBUG (Received_at_offset offset message_str)"
  obtain r w2 where p: "process_message loads int_str message_str ?w1 = (r, w2)"
    by (cases "process_message loads int_str message_str ?w1")
  have c: "closes (trace w2) = closes (trace w)"
    using process_message_closes [of loads int_str message_str ?w1] p by simp
  show ?case
  proof (cases r)
    case None
    then show ?thesis using 3 p c by simp
  next
    case (Some e)
    then show ?thesis using p c by simp
  qed
qed

lemma update_chart_extends: "\<exists>evs. trace (snd (update_chart int_str w)) = trace w @ evs"
  using update_chart_trace [of int_str w] by blast

lemma process_message_try_extends:
  "\<exists>evs. trace (snd (process_message_try loads int_str message w)) = trace w @ evs"
proof (cases "loads message")
  case (Inl e)
  then show ?thesis by (simp add: process_message_try_def)
next
  case (Inr v)
  show ?thesis
  proof (cases v)
    case (JObj kvs)
    define w3 where "w3 = log (log (log w DEBUG (Raw_message message)) INFO (Processed_JSON v))
       INFO (Message_received (dict_get kvs ''author'' (JStr ''unknown''))
                (dict_get kvs ''season'' (JStr ''unknown'')))"
    obtain r sc where i: "increment (dict_get kvs ''season'' (JStr ''unknown''))
        (dict_get kvs ''author'' (JStr ''unknown'')) (season_counts w3) = (r, sc)"
      by (cases "increment (dict_get kvs ''season'' (JStr ''unknown''))
        (dict_get kvs ''author'' (JStr ''unknown'')) (season_counts w3)")
    define w5 where "w5 = log (w3\<lparr>season_counts := sc\<rparr>) INFO (Updated_season_counts sc)"
    obtain evs where u: "trace (snd (update_chart int_str w5)) = trace w5 @ evs"
      using update_chart_extends by blast
    show ?thesis
      using Inr JObj i u
      by (cases r; cases "update_chart int_str w5")
         (auto simp: process_message_try_def w3_def w5_def split: option.splits)
  qed (use Inr in \<open>simp_all add: process_message_try_def\<close>)
qed

lemma process_message_extends:
  "\<exists>evs. trace (snd (process_message loads int_str message w)) = trace w @ evs"
  using process_message_try_extends [of loads int_str message w]
  by (auto simp: process_message_def split: prod.splits option.splits)

lemma consume_extends: "\<exists>evs. trace (snd (consume loads int_str consumer w)) = trace w @ evs"
proof (induction consumer arbitrary: w)
  case Nil
  then show ?case by simp
next
  case (Cons p rest)
  show ?case
  proof (cases p)
    case (Raises e)
    then show ?thesis by simp
  next
    case (Message offset message_str)
    let ?w1 = "log w DEBUG (Received_at_offset offset message_str)"
    obtain r w2 where p: "process_message loads int_str message_str ?w1 = (r, w2)"
      by (cases "process_message loads int_str message_str ?w1")
    obtain evs where e: "trace w2 = trace ?w1 @ evs"
      using process_message_extends [of loads int_str message_str ?w1] p by auto
    show ?thesis
    proof (cases r)
      case None
      obtain evs' where "trace (snd (consume loads int_str rest w2)) = trace w2 @ evs'"
        using Cons.IH [of w2] by blast
      then show ?thesis using None p e Message by simp
    next
      case (Some x)
      then show ?thesis using p e Message by simp
    qed
  qed
qed

section \<open>What the renderer draws\<close>

lemma emitted_append: "trace w' = trace w @ evs \<Longrightarrow> emitted w w' = evs"
  by (simp add: emitted_def)

lemma plot_calls_Plot [simp]: "plot_calls (map Plot cs) = cs"
  by (induction cs) (simp_all add: plot_calls_def)

lemma bar_labels_append [simp]: "bar_labels (xs @ ys) = bar_labels xs @ bar_labels ys"
  by (induction xs rule: bar_labels.induct) simp_all

lemma segment_text_is_text:
  "segment_text ss totals bottoms author i cnt = Inr t \<Longrightarrow>
   \<exists>season y label color. t = Ax_text season y label color"
  by (auto simp: segment_text_def Let_def split: sum.splits)

lemma percentage_labels_are_texts:
  "c \<in> set (fst (percentage_labels ss totals bottoms author i cnts)) \<Longrightarrow>
   \<exists>season y label color. c = Ax_text season y label color"
proof (induction cnts arbitrary: i)
  case Nil
  then show ?case by simp
next
  case (Cons cnt cnts)
  show ?case
  proof (cases "0 < cnt")
    case False
    then show ?thesis using Cons by simp
  next
    case True
    show ?thesis
    proof (cases "segment_text ss totals bottoms author i cnt")
      case (Inl e)
      then show ?thesis using True Cons.prems by simp
    next
      case (Inr t)
      then show ?thesis
        using True Cons segment_text_is_text [OF Inr]
        by (auto simp: split_beta)
    qed
  qed
qed

lemma bar_labels_texts:
  "\<forall>c \<in> set cs. \<exists>season y label color. c = Ax_text season y label color \<Longrightarrow> bar_labels cs = []"
  by (induction cs rule: bar_labels.induct) auto

lemma bar_labels_percentage_labels [simp]:
  "bar_labels (fst (percentage_labels ss totals bottoms author i cnts)) = []"
  by (rule bar_labels_texts) (blast dest: percentage_labels_are_texts)

lemma x_positions_percentage_labels:
  "c \<in> set (fst (percentage_labels ss totals bottoms author i cnts)) \<Longrightarrow> x_positions c = None"
  by (auto dest: percentage_labels_are_texts)

lemma author_loop_bar_labels:
  "prefix (bar_labels (fst (author_loop acs ss totals bottoms sc))) (map fst acs) \<and>
   (fst (snd (author_loop acs ss totals bottoms sc)) = None \<longrightarrow>
      bar_labels (fst (author_loop acs ss totals bottoms sc)) = map fst acs)"
proof (induction acs arbitrary: bottoms sc)
  case Nil
  then show ?case by simp
next
  case (Cons ac acs)
  obtain author color where ac: "ac = (author, color)" by (cases ac)
  obtain cnts sc1 where c: "author_message_counts sc (KStr author) ss = (cnts, sc1)"
    by (cases "author_message_counts sc (KStr author) ss")
  obtain texts r where p: "percentage_labels ss totals bottoms author 0 cnts = (texts, r)"
    by (cases "percentage_labels ss totals bottoms author 0 cnts")
  have t: "bar_labels texts = []"
    using bar_labels_percentage_labels [of ss totals bottoms author 0 cnts] p by simp
  show ?case
  proof (cases r)
    case (Some e)
    then show ?thesis using ac c p t by simp
  next
    case None
    let ?b = "map (\<lambda>(bottom, count). bottom + count) (zip bottoms cnts)"
    obtain calls r' sc2 where l: "author_loop acs ss totals ?b sc1 = (calls, r', sc2)"
      by (cases "author_loop acs ss totals ?b sc1")
    then show ?thesis
      using None ac c p t Cons.IH [of ?b sc1] by simp
  qed
qed

lemma author_loop_x_positions:
  "c \<in> set (fst (author_loop acs ss totals bottoms sc)) \<Longrightarrow>
   x_positions c = None \<or> x_positions c = Some ss"
proof (induction acs arbitrary: bottoms sc)
  case Nil
  then show ?case by simp
next
  case (Cons ac acs)
  obtain author color where ac: "ac = (author, color)" by (cases ac)
  obtain cnts sc1 where a: "author_message_counts sc (KStr author) ss = (cnts, sc1)"
    by (cases "author_message_counts sc (KStr author) ss")
  obtain texts r where p: "percentage_labels ss totals bottoms author 0 cnts = (texts, r)"
    by (cases "percentage_labels ss totals bottoms author 0 cnts")
  have t: "\<forall>c \<in> set texts. x_positions c = None"
    using x_positions_percentage_labels [of _ ss totals bottoms author 0 cnts] p by simp
  show ?case
  proof (cases r)
    case (Some e)
    then show ?thesis using ac a p t Cons.prems by auto
  next
    case None
    let ?b = "map (\<lambda>(bottom, count). bottom + count) (zip bottoms cnts)"
    obtain calls r' sc2 where l: "author_loop acs ss totals ?b sc1 = (calls, r', sc2)"
      by (cases "author_loop acs ss totals ?b sc1")
    then show ?thesis
      using None ac a p t Cons.prems Cons.IH [of ?b sc1] by auto
  qed
qed

lemma author_loop_first_bar:
  "\<exists>cnts. Ax_bar ss cnts bottoms color author \<in>
      set (fst (author_loop ((author, color) # acs) ss totals bottoms sc))"
  by (auto simp: split_beta Let_def split: option.splits)

text \<open>The calls of one \<open>update_chart\<close>, and its result, in terms of the loop over the authors.\<close>

lemma update_chart_fails:
  "sorted_by_int int_str (map fst (season_counts w)) = Inl e \<Longrightarrow>
   update_chart int_str w = (Some e, plot w [Ax_clear])"
  by (simp add: update_chart_def)

lemma update_chart_draws:
  assumes "sorted_by_int int_str (map fst (season_counts w)) = Inr ss"
    and "author_loop author_colors ss (fst (season_totals (season_counts w) ss []))
           (replicate (length ss) 0) (season_counts w) = (calls, r, sc2)"
  shows "fst (update_chart int_str w) = r"
    and "plot_calls (emitted w (snd (update_chart int_str w))) =
           Ax_clear # calls @
             (if r = None then
                [Set_xlabel ''Seasons'', Set_ylabel ''Message Counts'',
                 Set_title ''The Simpsons Most Memorable Leader (Seasons 1-30)'',
                 Set_xticks ss, Set_xticklabels ss, Legend, Tight_layout, Draw, Pause]
              else [])"
proof -
  have sub: "set ss \<subseteq> set (map fst (season_counts w))"
    using assms(1) sorted_by_int_set by blast
  define totals where "totals = fst (season_totals (season_counts w) ss [])"
  have t: "season_totals (season_counts w) ss [] = (totals, season_counts w)"
    using season_totals_counts [OF sub, of "[]"] by (simp add: prod_eq_iff totals_def)
  have a: "author_loop author_colors ss totals (replicate (length ss) 0) (season_counts w) =
      (calls, r, sc2)"
    using assms(2) by (simp add: totals_def)
  show "fst (update_chart int_str w) = r"
    using assms(1) t a by (cases r) (simp_all add: update_chart_def)
  have "trace (snd (update_chart int_str w)) = trace w @ map Plot (Ax_clear # calls @
             (if r = None then
                [Set_xlabel ''Seasons'', Set_ylabel ''Message Counts'',
                 Set_title ''The Simpsons Most Memorable Leader (Seasons 1-30)'',
                 Set_xticks ss, Set_xticklabels ss, Legend, Tight_layout, Draw, Pause]
              else []))"
    using assms(1) t a by (cases r) (simp_all add: update_chart_def)
  then show "plot_calls (emitted w (snd (update_chart int_str w))) =
           Ax_clear # calls @
             (if r = None then
                [Set_xlabel ''Seasons'', Set_ylabel ''Message Counts'',
                 Set_title ''The Simpsons Most Memorable Leader (Seasons 1-30)'',
                 Set_xticks ss, Set_xticklabels ss, Legend, Tight_layout, Draw, Pause]
              else [])"
    by (simp only: emitted_append plot_calls_Plot)
qed

text \<open>The numeric sort of the seasons.\<close>

lemma py_int_error:
  "py_int int_str k = Inl e \<Longrightarrow> e = TypeError \<or> e = ValueError \<or> e = OverflowError"
  by (cases k) (auto split: option.splits)

lemma int_keys_ok:
  "\<forall>k \<in> set ks. \<not> isl (py_int int_str k) \<Longrightarrow> int_keys int_str ks = Inr (map (\<lambda>k. (int_of_key int_str k, k)) ks)"
  by (induction ks) (auto simp: int_of_key_def split: sum.splits)

lemma int_keys_fails:
  "\<exists>k \<in> set ks. isl (py_int int_str k) \<Longrightarrow> \<exists>e. int_keys int_str ks = Inl e \<and> (e = TypeError \<or> e = ValueError \<or> e = OverflowError)"
proof (induction ks)
  case Nil
  then show ?case by simp
next
  case (Cons k ks)
  show ?case
  proof (cases "py_int int_str k")
    case (Inl e)
    then show ?thesis using py_int_error [OF Inl] by auto
  next
    case (Inr n)
    then have "\<exists>k \<in> set ks. isl (py_int int_str k)"
      using Cons.prems by auto
    then obtain e where "int_keys int_str ks = Inl e"
      and "e = TypeError \<or> e = ValueError \<or> e = OverflowError"
      using Cons.IH by blast
    then show ?thesis using Inr by auto
  qed
qed

lemma insort_key_decorated:
  "insort_key fst (f k, k) (map (\<lambda>k. (f k, k)) ks) = map (\<lambda>k. (f k, k)) (insort_key f k ks)"
  by (induction ks) auto

lemma sort_key_decorated:
  "sort_key fst (map (\<lambda>k. (f k, k)) ks) = map (\<lambda>k. (f k, k)) (sort_key f ks)"
  by (induction ks) (simp_all add: insort_key_decorated)

lemma sorted_by_int_ok:
  assumes "\<forall>k \<in> set ks. \<not> isl (py_int int_str k)"
  shows "sorted_by_int int_str ks = Inr (sort_key (int_of_key int_str) ks)"
proof -
  have "map snd (map (\<lambda>k. (int_of_key int_str k, k)) (sort_key (int_of_key int_str) ks)) = sort_key (int_of_key int_str) ks"
    by (simp add: comp_def)
  then show ?thesis
    using int_keys_ok [OF assms]
    by (simp add: sorted_by_int_def sort_key_decorated del: map_map)
qed

lemma sorted_by_int_fails:
  "\<exists>k \<in> set ks. isl (py_int int_str k) \<Longrightarrow>
   \<exists>e. sorted_by_int int_str ks = Inl e \<and>
       (e = TypeError \<or> e = ValueError \<or> e = OverflowError)"
  using int_keys_fails [of ks int_str] by (auto simp: sorted_by_int_def)

text \<open>The plotting calls of one \<open>process_message\<close> are those of its \<open>update_chart\<close>.\<close>

lemma plot_calls_append [simp]: "plot_calls (xs @ ys) = plot_calls xs @ plot_calls ys"
  by (simp add: plot_calls_def)

lemma plot_calls_Nil [simp]: "plot_calls [] = []"
  by (simp add: plot_calls_def)

lemma plot_calls_Cons_Log [simp]: "plot_calls (Log l m # evs) = plot_calls evs"
  by (simp add: plot_calls_def)

lemma plot_calls_Cons_Plot [simp]: "plot_calls (Plot c # evs) = c # plot_calls evs"
  by (simp add: plot_calls_def)

lemma update_chart_plot_calls:
  "trace (snd (update_chart int_str w)) =
   trace w @ map Plot (plot_calls (emitted w (snd (update_chart int_str w))))"
proof -
  obtain cs where cs: "trace (snd (update_chart int_str w)) = trace w @ map Plot cs"
    using update_chart_trace by blast
  then have "emitted w (snd (update_chart int_str w)) = map Plot cs"
    by (rule emitted_append)
  then show ?thesis using cs by simp
qed

lemma update_chart_cong:
  assumes "season_counts w = season_counts w'"
  shows "fst (update_chart int_str w) = fst (update_chart int_str w')"
    and "plot_calls (emitted w (snd (update_chart int_str w))) =
         plot_calls (emitted w' (snd (update_chart int_str w')))"
proof -
  have "fst (update_chart int_str w) = fst (update_chart int_str w') \<and>
        plot_calls (emitted w (snd (update_chart int_str w))) =
        plot_calls (emitted w' (snd (update_chart int_str w')))"
  proof (cases "sorted_by_int int_str (map fst (season_counts w))")
    case (Inl e)
    then have "update_chart int_str w = (Some e, plot w [Ax_clear])"
      and "update_chart int_str w' = (Some e, plot w' [Ax_clear])"
      using assms by (simp_all add: update_chart_fails)
    then show ?thesis by (simp add: emitted_def)
  next
    case (Inr ss)
    obtain calls r sc2 where a:
      "author_loop author_colors ss (fst (season_totals (season_counts w) ss []))
         (replicate (length ss) 0) (season_counts w) = (calls, r, sc2)"
      by (cases "author_loop author_colors ss (fst (season_totals (season_counts w) ss []))
         (replicate (length ss) 0) (season_counts w)")
    have Inr': "sorted_by_int int_str (map fst (season_counts w')) = Inr ss"
      using Inr assms by simp
    have a': "author_loop author_colors ss (fst (season_totals (season_counts w') ss []))
         (replicate (length ss) 0) (season_counts w') = (calls, r, sc2)"
      using a assms by simp
    show ?thesis
      using update_chart_draws [OF Inr a] update_chart_draws [OF Inr' a'] by simp
  qed
  then show "fst (update_chart int_str w) = fst (update_chart int_str w')"
    and "plot_calls (emitted w (snd (update_chart int_str w))) =
         plot_calls (emitted w' (snd (update_chart int_str w')))"
    by simp_all
qed

lemma process_message_plot_calls:
  "plot_calls (emitted w (snd (process_message loads int_str message w))) =
     (case loads message of
        Inr (JObj kvs) \<Rightarrow>
          (case increment (dict_get kvs ''season'' (JStr ''unknown''))
                  (dict_get kvs ''author'' (JStr ''unknown'')) (season_counts w) of
             (None, sc') \<Rightarrow>
               plot_calls (emitted (w\<lparr>season_counts := sc'\<rparr>)
                 (snd (update_chart int_str (w\<lparr>season_counts := sc'\<rparr>))))
           | (Some e, sc') \<Rightarrow> [])
      | _ \<Rightarrow> [])"
proof (cases "loads message")
  case (Inl e)
  then show ?thesis
    by (simp add: process_message_def process_message_try_def emitted_def)
next
  case (Inr v)
  show ?thesis
  proof (cases v)
    case (JObj kvs)
    let ?season = "dict_get kvs ''season'' (JStr ''unknown'')"
    let ?author = "dict_get kvs ''author'' (JStr ''unknown'')"
    obtain r sc' where i: "increment ?season ?author (season_counts w) = (r, sc')"
      by (cases "increment ?season ?author (season_counts w)")
    show ?thesis
    proof (cases r)
      case (Some e)
      then show ?thesis
        using Inr JObj i
        by (simp add: process_message_def process_message_try_def emitted_def)
    next
      case None
      define w5 where "w5 = log (log (log (log w DEBUG (Raw_message message))
          INFO (Processed_JSON (JObj kvs))) INFO (Message_received ?author ?season)
          \<lparr>season_counts := sc'\<rparr>) INFO (Updated_season_counts sc')"
      define cs where "cs = plot_calls (emitted (w\<lparr>season_counts := sc'\<rparr>)
                 (snd (update_chart int_str (w\<lparr>season_counts := sc'\<rparr>))))"
      have "season_counts w5 = season_counts (w\<lparr>season_counts := sc'\<rparr>)"
        by (simp add: w5_def)
      then have "plot_calls (emitted w5 (snd (update_chart int_str w5))) = cs"
        unfolding cs_def by (rule update_chart_cong(2))
      then have t: "trace (snd (update_chart int_str w5)) = trace w5 @ map Plot cs"
        using update_chart_plot_calls [of int_str w5] by simp
      have t5: "trace w5 = trace w @ [Log DEBUG (Raw_message message),
          Log INFO (Processed_JSON (JObj kvs)), Log INFO (Message_received ?author ?season),
          Log INFO (Updated_season_counts sc')]"
        by (simp add: w5_def)
      obtain r6 w6 where u: "update_chart int_str w5 = (r6, w6)"
        by (cases "update_chart int_str w5")
      have p: "process_message_try loads int_str message w =
          (case r6 of Some e \<Rightarrow> (Some e, w6) | None \<Rightarrow> (None, log w6 INFO (Chart_updated message)))"
        using Inr JObj i None u
        by (simp add: process_message_try_def w5_def split: option.splits)
      have "\<exists>logs. trace (snd (process_message loads int_str message w)) = trace w6 @ logs \<and>
          plot_calls logs = []"
      proof (cases r6)
        case None
        then have "trace (snd (process_message loads int_str message w)) =
            trace w6 @ [Log INFO (Chart_updated message)]"
          using p by (simp add: process_message_def)
        then show ?thesis by simp
      next
        case (Some e)
        then have "trace (snd (process_message loads int_str message w)) = trace w6 @
            (if e = JSONDecodeError then [Log ERROR (Invalid_JSON message)]
             else if is_Exception e then [Log ERROR (Error_processing e)] else [])"
          using p by (simp add: process_message_def)
        then show ?thesis by simp
      qed
      then obtain logs where "trace (snd (process_message loads int_str message w)) = trace w6 @ logs"
        and "plot_calls logs = []"
        by blast
      then have "emitted w (snd (process_message loads int_str message w)) =
          [Log DEBUG (Raw_message message),
          Log INFO (Processed_JSON (JObj kvs)), Log INFO (Message_received ?author ?season),
          Log INFO (Updated_season_counts sc')] @ map Plot cs @ logs"
        using t t5 u by (simp add: emitted_def)
      then have "plot_calls (emitted w (snd (process_message loads int_str message w))) = cs"
        using \<open>plot_calls logs = []\<close> by simp
      then show ?thesis
        using Inr JObj i None by (simp add: cs_def)
    qed
  qed (use Inr in \<open>simp_all add: process_message_def process_message_try_def emitted_def\<close>)
qed

lemma update_chart_bar_labels:
  "prefix (bar_labels (plot_calls (emitted w (snd (update_chart int_str w))))) (map fst author_colors) \<and>
   (fst (update_chart int_str w) = None \<longrightarrow>
      bar_labels (plot_calls (emitted w (snd (update_chart int_str w)))) = map fst author_colors)"
proof (cases "sorted_by_int int_str (map fst (season_counts w))")
  case (Inl e)
  then show ?thesis
    by (simp add: update_chart_fails emitted_def)
next
  case (Inr ss)
  obtain calls r sc2 where a:
    "author_loop author_colors ss (fst (season_totals (season_counts w) ss []))
       (replicate (length ss) 0) (season_counts w) = (calls, r, sc2)"
    by (cases "author_loop author_colors ss (fst (season_totals (season_counts w) ss []))
       (replicate (length ss) 0) (season_counts w)")
  have "prefix (bar_labels calls) (map fst author_colors) \<and>
      (r = None \<longrightarrow> bar_labels calls = map fst author_colors)"
    using author_loop_bar_labels [of author_colors ss
        "fst (season_totals (season_counts w) ss [])" "replicate (length ss) 0" "season_counts w"] a
    by simp
  then show ?thesis
    using update_chart_draws [OF Inr a] by auto
qed

section \<open>Rounding to a double\<close>






section \<open>Decoding and counting one message\<close>

text \<open>
  Claim C1. When the payload decodes to an object whose \<open>author\<close> and \<open>season\<close> fields are
  the strings \<open>A\<close> and \<open>S\<close>, \<open>process_message\<close> raises the count of the pair \<open>(S, A)\<close> by
  exactly one and leaves the count of every other pair as it was. This holds whether or
  not the redraw that follows succeeds.
\<close>

theorem process_message_increments_pair:
  assumes "loads message = Inr (JObj kvs)"
    and "map_of kvs ''author'' = Some (JStr A)"
    and "map_of kvs ''season'' = Some (JStr S)"
  shows "count_of (season_counts (snd (process_message loads int_str message w))) s a =
         count_of (season_counts w) s a + (if s = KStr S \<and> a = KStr A then 1 else 0)"
proof -
  have "dict_get kvs ''author'' (JStr ''unknown'') = JStr A"
    and "dict_get kvs ''season'' (JStr ''unknown'') = JStr S"
    using assms by (simp_all add: dict_get_def)
  then have "season_counts (snd (process_message loads int_str message w)) =
             snd (increment (JStr S) (JStr A) (season_counts w))"
    using assms(1) by (simp add: process_message_counts)
  then show ?thesis
    by (simp add: count_of_increment [of "JStr S" "KStr S" "JStr A" "KStr A"])
qed

theorem process_message_increments_pair_witness:
  \<open>sample_loads ''{"author": "Homer", "season": "1"}'' =
      Inr (JObj [(''author'', JStr ''Homer''), (''season'', JStr ''1'')]) \<and>
   count_of (season_counts (snd (process_message sample_loads sample_int
      ''{"author": "Homer", "season": "1"}'' init))) (KStr ''1'') (KStr ''Homer'') = 1 \<and>
   count_of (season_counts (snd (process_message sample_loads sample_int
      ''{"author": "Homer", "season": "1"}'' init))) (KStr ''1'') (KStr ''Bart'') = 0\<close>
proof -
  have h: \<open>sample_loads ''{"author": "Homer", "season": "1"}'' =
      Inr (JObj [(''author'', JStr ''Homer''), (''season'', JStr ''1'')])\<close>
    by (simp add: sample_loads_def)
  have a: "map_of [(''author'', JStr ''Homer''), (''season'', JStr ''1'')] ''author'' =
      Some (JStr ''Homer'')"
    by simp
  have s: "map_of [(''author'', JStr ''Homer''), (''season'', JStr ''1'')] ''season'' =
      Some (JStr ''1'')"
    by simp
  show ?thesis
    using h
      process_message_increments_pair [where loads = sample_loads and int_str = sample_int and w = init
        and s = "KStr ''1''" and a = "KStr ''Homer''", OF h a s]
      process_message_increments_pair [where loads = sample_loads and int_str = sample_int and w = init
        and s = "KStr ''1''" and a = "KStr ''Bart''", OF h a s]
    by (simp add: init_def count_of_def)
qed

text \<open>
  Claim C2. When the payload decodes to an object that lacks \<open>author\<close> or \<open>season\<close>, the
  missing field is read as the string \<open>unknown\<close> and the count of the resulting pair is
  raised by one, so the message is not dropped. The field that is present has to be
  usable as a dictionary key, which every string, number, boolean and \<^verbatim>\<open>null\<close> is.
\<close>

theorem missing_fields_default_to_unknown:
  assumes "loads message = Inr (JObj kvs)"
    and "map_of kvs ''author'' = None \<or> map_of kvs ''season'' = None"
    and "to_key (dict_get kvs ''author'' (JStr ''unknown'')) = Inr a0"
    and "to_key (dict_get kvs ''season'' (JStr ''unknown'')) = Inr s0"
  shows "(map_of kvs ''author'' = None \<longrightarrow> a0 = KStr ''unknown'') \<and>
         (map_of kvs ''season'' = None \<longrightarrow> s0 = KStr ''unknown'') \<and>
         count_of (season_counts (snd (process_message loads int_str message w))) s a =
           count_of (season_counts w) s a + (if s = s0 \<and> a = a0 then 1 else 0)"
proof -
  have "map_of kvs ''author'' = None \<longrightarrow> a0 = KStr ''unknown''"
    using assms(3) by (auto simp: dict_get_def)
  moreover have "map_of kvs ''season'' = None \<longrightarrow> s0 = KStr ''unknown''"
    using assms(4) by (auto simp: dict_get_def)
  moreover have "count_of (season_counts (snd (process_message loads int_str message w))) s a =
           count_of (season_counts w) s a + (if s = s0 \<and> a = a0 then 1 else 0)"
    using assms(1) count_of_increment [OF assms(4) assms(3)]
    by (simp add: process_message_counts)
  ultimately show ?thesis by blast
qed

theorem missing_fields_default_to_unknown_witness:
  \<open>sample_loads ''{"author": "Bart"}'' = Inr (JObj [(''author'', JStr ''Bart'')]) \<and>
   map_of [(''author'', JStr ''Bart'')] ''season'' = None \<and>
   to_key (dict_get [(''author'', JStr ''Bart'')] ''author'' (JStr ''unknown'')) = Inr (KStr ''Bart'') \<and>
   to_key (dict_get [(''author'', JStr ''Bart'')] ''season'' (JStr ''unknown'')) = Inr (KStr ''unknown'') \<and>
   count_of (season_counts (snd (process_message sample_loads sample_int ''{"author": "Bart"}'' init)))
     (KStr ''unknown'') (KStr ''Bart'') = 1\<close>
proof -
  have h: \<open>sample_loads ''{"author": "Bart"}'' = Inr (JObj [(''author'', JStr ''Bart'')])\<close>
    by (simp add: sample_loads_def)
  have m: "map_of [(''author'', JStr ''Bart'')] ''author'' = None \<or>
           map_of [(''author'', JStr ''Bart'')] ''season'' = None"
    by simp
  have a: "to_key (dict_get [(''author'', JStr ''Bart'')] ''author'' (JStr ''unknown'')) =
           Inr (KStr ''Bart'')"
    by (simp add: dict_get_def)
  have s: "to_key (dict_get [(''author'', JStr ''Bart'')] ''season'' (JStr ''unknown'')) =
           Inr (KStr ''unknown'')"
    by (simp add: dict_get_def)
  show ?thesis
    using h a s
      missing_fields_default_to_unknown [where loads = sample_loads and int_str = sample_int and w = init
        and s = "KStr ''unknown''" and a = "KStr ''Bart''", OF h m a s]
    by (simp add: init_def count_of_def)
qed

text \<open>
  Claim C3. When \<^verbatim>\<open>json.loads\<close> rejects the text with \<open>JSONDecodeError\<close>,
  \<open>process_message\<close> logs the raw text and then the error \<open>Invalid JSON message\<close>, does
  nothing else and returns normally; \<open>season_counts\<close> is what it was.
\<close>

theorem invalid_json_is_dropped:
  assumes "loads message = Inl JSONDecodeError"
  shows "process_message loads int_str message w =
           (None, w\<lparr>trace := trace w @
              [Log DEBUG (Raw_message message), Log ERROR (Invalid_JSON message)]\<rparr>) \<and>
         season_counts (snd (process_message loads int_str message w)) = season_counts w"
  using assms by (simp add: process_message_def process_message_try_def log_def)

theorem invalid_json_is_dropped_witness:
  "sample_loads ''not json'' = Inl JSONDecodeError \<and>
   process_message sample_loads sample_int ''not json'' init =
     (None, \<lparr>season_counts = [],
             trace = [Log DEBUG (Raw_message ''not json''), Log ERROR (Invalid_JSON ''not json'')]\<rparr>)"
proof -
  have h: "sample_loads ''not json'' = Inl JSONDecodeError"
    by (simp add: sample_loads_def)
  show ?thesis
    using h invalid_json_is_dropped [where loads = sample_loads and int_str = sample_int and w = init, OF h] by (simp add: init_def)
qed

text \<open>
  Claim C4. When the text decodes to a value that is no object (an array or a scalar),
  \<open>process_message\<close> logs the error \<open>Expected a dictionary\<close>, does nothing else and
  returns normally; \<open>season_counts\<close> is what it was.
\<close>

theorem non_object_is_dropped:
  assumes "loads message = Inr v" and "\<forall>kvs. v \<noteq> JObj kvs"
  shows "process_message loads int_str message w =
           (None, w\<lparr>trace := trace w @
              [Log DEBUG (Raw_message message), Log INFO (Processed_JSON v),
               Log ERROR (Expected_dict v)]\<rparr>) \<and>
         season_counts (snd (process_message loads int_str message w)) = season_counts w"
  using assms by (cases v) (simp_all add: process_message_def process_message_try_def log_def)

theorem non_object_is_dropped_witness:
  "sample_loads ''[1, 2]'' = Inr (JArr [JInt 1, JInt 2]) \<and>
   (\<forall>kvs. JArr [JInt 1, JInt 2] \<noteq> JObj kvs) \<and>
   process_message sample_loads sample_int ''[1, 2]'' init =
     (None, \<lparr>season_counts = [],
             trace = [Log DEBUG (Raw_message ''[1, 2]''),
                      Log INFO (Processed_JSON (JArr [JInt 1, JInt 2])),
                      Log ERROR (Expected_dict (JArr [JInt 1, JInt 2]))]\<rparr>)"
proof -
  have h: "sample_loads ''[1, 2]'' = Inr (JArr [JInt 1, JInt 2])"
    by (simp add: sample_loads_def)
  have n: "\<forall>kvs. JArr [JInt 1, JInt 2] \<noteq> JObj kvs"
    by simp
  show ?thesis
    using h n non_object_is_dropped [where loads = sample_loads and int_str = sample_int and w = init, OF h n] by (simp add: init_def)
qed

section \<open>Finalization of the consumer\<close>

text \<open>
  Claim C7. However the consumption loop ends (the pulls are used up, a pull raises
  \<open>KeyboardInterrupt\<close>, a pull raises any other exception, or an exception escapes
  \<open>process_message\<close>), \<open>main\<close> calls the consumer's \<^verbatim>\<open>close\<close> exactly once, after everything
  the loop did: the trace \<open>main\<close> adds contains exactly one \<open>Consumer_close\<close>. This also
  holds when an exception that is no \<^verbatim>\<open>Exception\<close> leaves \<open>main\<close>.
\<close>

theorem consumer_closed_exactly_once:
  "\<exists>evs rest. trace (snd (main loads int_str getenv consumer w)) = trace w @ evs @ Consumer_close # rest \<and>
      closes evs = 0 \<and> closes rest = 0 \<and>
      closes (trace (snd (main loads int_str getenv consumer w))) = closes (trace w) + 1"
proof -
  define topic where "topic = fst (get_kafka_topic getenv (log w INFO Start_consumer))"
  define w2 where "w2 = snd (get_kafka_topic getenv (log w INFO Start_consumer))"
  define group_id where "group_id = fst (get_kafka_consumer_group_id getenv w2)"
  define w3 where "w3 = snd (get_kafka_consumer_group_id getenv w2)"
  define w5 where "w5 = log (log w3 INFO (Consumer_topic_group topic group_id)) INFO (Polling topic)"
  have t5: "trace w5 = trace w @ [Log INFO Start_consumer, Log INFO (Kafka_topic topic),
      Log INFO (Kafka_group_id group_id), Log INFO (Consumer_topic_group topic group_id),
      Log INFO (Polling topic)]"
    by (simp add: w5_def w3_def w2_def topic_def group_id_def get_kafka_topic_def
        get_kafka_consumer_group_id_def Let_def)
  obtain r w6 where c: "consume loads int_str consumer w5 = (r, w6)"
    by (cases "consume loads int_str consumer w5")
  obtain evs6 where e6: "trace w6 = trace w5 @ evs6"
    using consume_extends [of loads int_str consumer w5] c by auto
  have c6: "closes (trace w6) = closes (trace w5)"
    using consume_closes [of loads int_str consumer w5] c by simp
  then have z6: "closes evs6 = 0"
    using e6 by simp
  define hs where "hs = (case r of None \<Rightarrow> [] | Some e \<Rightarrow>
      if e = KeyboardInterrupt then [Log WARNING Interrupted]
      else if is_Exception e then [Log ERROR (Error_consuming e)] else [])"
  define tl where "tl = Log INFO (Consumer_closed topic) #
      (case r of None \<Rightarrow> [Log INFO (End_consumer topic group_id)] | Some e \<Rightarrow>
        if e = KeyboardInterrupt \<or> is_Exception e then [Log INFO (End_consumer topic group_id)] else [])"
  have m: "trace (snd (main loads int_str getenv consumer w)) = trace w6 @ hs @ Consumer_close # tl"
  proof (cases r)
    case None
    then show ?thesis
      using c
      by (simp add: main_def w5_def w3_def w2_def topic_def group_id_def hs_def tl_def
          split_beta Let_def)
  next
    case (Some e)
    then show ?thesis
      using c
      by (simp add: main_def w5_def w3_def w2_def topic_def group_id_def hs_def tl_def
          split_beta Let_def)
  qed
  have zh: "closes hs = 0"
    by (simp add: hs_def split: option.splits)
  have zt: "closes tl = 0"
    by (simp add: tl_def split: option.splits)
  have "trace (snd (main loads int_str getenv consumer w)) =
      trace w @ ([Log INFO Start_consumer, Log INFO (Kafka_topic topic),
      Log INFO (Kafka_group_id group_id), Log INFO (Consumer_topic_group topic group_id),
      Log INFO (Polling topic)] @ evs6 @ hs) @ Consumer_close # tl"
    using m e6 t5 by simp
  moreover have "closes ([Log INFO Start_consumer, Log INFO (Kafka_topic topic),
      Log INFO (Kafka_group_id group_id), Log INFO (Consumer_topic_group topic group_id),
      Log INFO (Polling topic)] @ evs6 @ hs) = 0"
    using z6 zh by simp
  moreover have "closes (trace (snd (main loads int_str getenv consumer w))) = closes (trace w) + 1"
    using m e6 t5 z6 zh zt by simp
  ultimately show ?thesis
    using zt by blast
qed

theorem consumer_closed_exactly_once_witness:
  "closes (trace (snd (main sample_loads sample_int (\<lambda>v. None)
      [Message 0 ''[1, 2]'', Raises KeyboardInterrupt, Message 1 ''not json''] init))) = 1 \<and>
   closes (trace (snd (main sample_loads sample_int (\<lambda>v. None) [Message 0 ''not json''] init))) = 1 \<and>
   closes (trace (snd (main sample_loads sample_int (\<lambda>v. None)
      [Raises (OtherError ''broker down'')] init))) = 1 \<and>
   main sample_loads sample_int (\<lambda>v. None)
      [Message 0 ''[1, 2]'', Raises KeyboardInterrupt, Message 1 ''not json''] init =
     (None, \<lparr>season_counts = [], trace =
        [Log INFO Start_consumer, Log INFO (Kafka_topic ''unknown_topic''),
         Log INFO (Kafka_group_id ''default_group''),
         Log INFO (Consumer_topic_group ''unknown_topic'' ''default_group''),
         Log INFO (Polling ''unknown_topic''),
         Log DEBUG (Received_at_offset 0 ''[1, 2]''),
         Log DEBUG (Raw_message ''[1, 2]''), Log INFO (Processed_JSON (JArr [JInt 1, JInt 2])),
         Log ERROR (Expected_dict (JArr [JInt 1, JInt 2])), Log WARNING Interrupted,
         Consumer_close, Log INFO (Consumer_closed ''unknown_topic''),
         Log INFO (End_consumer ''unknown_topic'' ''default_group'')]\<rparr>)"
proof -
  have c: "closes (trace (snd (main sample_loads sample_int (\<lambda>v. None) consumer init))) = 1" for consumer
  proof -
    have "closes (trace (snd (main sample_loads sample_int (\<lambda>v. None) consumer init))) =
          closes (trace init) + 1"
      using consumer_closed_exactly_once [of sample_loads sample_int "\<lambda>v. None" consumer init]
      by blast
    then show ?thesis by (simp add: init_def)
  qed
  have m: "main sample_loads sample_int (\<lambda>v. None)
      [Message 0 ''[1, 2]'', Raises KeyboardInterrupt, Message 1 ''not json''] init =
     (None, \<lparr>season_counts = [], trace =
        [Log INFO Start_consumer, Log INFO (Kafka_topic ''unknown_topic''),
         Log INFO (Kafka_group_id ''default_group''),
         Log INFO (Consumer_topic_group ''unknown_topic'' ''default_group''),
         Log INFO (Polling ''unknown_topic''),
         Log DEBUG (Received_at_offset 0 ''[1, 2]''),
         Log DEBUG (Raw_message ''[1, 2]''), Log INFO (Processed_JSON (JArr [JInt 1, JInt 2])),
         Log ERROR (Expected_dict (JArr [JInt 1, JInt 2])), Log WARNING Interrupted,
         Consumer_close, Log INFO (Consumer_closed ''unknown_topic''),
         Log INFO (End_consumer ''unknown_topic'' ''default_group'')]\<rparr>)"
    by code_simp
  show ?thesis using c m by blast
qed

section \<open>The invariant of the count table\<close>

lemma list_all_dict_setitem:
  "list_all Q d \<Longrightarrow> Q (k, v) \<Longrightarrow> list_all Q (dict_setitem d k v)"
  by (induction d) auto

lemma list_all_map_of:
  "list_all Q d \<Longrightarrow> map_of d k = Some v \<Longrightarrow> Q (k, v)"
  by (auto simp: list_all_iff dest: map_of_SomeD)

lemma list_all_dd_getitem:
  assumes "list_all Q d" and "Q (k, dflt)"
  shows "Q (k, fst (dd_getitem dflt d k))" and "list_all Q (snd (dd_getitem dflt d k))"
  using assms
  by (auto simp: dd_getitem_def list_all_dict_setitem list_all_map_of split: option.splits)

lemma counts_nonneg_increment:
  assumes "counts_nonneg sc"
  shows "counts_nonneg (snd (increment season author sc))"
proof (cases "to_key season")
  case (Inl e)
  then show ?thesis using assms by (simp add: increment_unhashable_season)
next
  case s0: (Inr s0)
  let ?Q = "\<lambda>(s, inner). list_all (\<lambda>(a, n). 0 \<le> (n::int)) inner"
  let ?R = "\<lambda>(a, n). 0 \<le> (n::int)"
  have sc: "list_all ?Q sc"
    using assms by (simp add: counts_nonneg_def)
  have q: "?Q (s0, [])"
    by simp
  have inner: "list_all ?R (fst (dd_getitem [] sc s0))"
    using list_all_dd_getitem(1) [OF sc q] by simp
  have sc1: "list_all ?Q (snd (dd_getitem [] sc s0))"
    using list_all_dd_getitem(2) [OF sc q] .
  show ?thesis
  proof (cases "to_key author")
    case (Inl e)
    then show ?thesis
      using s0 sc1 by (simp add: increment_unhashable_author counts_nonneg_def)
  next
    case (Inr a0)
    have r: "?R (a0, 0)"
      by simp
    have old: "0 \<le> fst (dd_getitem 0 (fst (dd_getitem [] sc s0)) a0)"
      using list_all_dd_getitem(1) [OF inner r] by simp
    have inner1: "list_all ?R (snd (dd_getitem 0 (fst (dd_getitem [] sc s0)) a0))"
      using list_all_dd_getitem(2) [OF inner r] .
    have inner2: "list_all ?R (dict_setitem (snd (dd_getitem 0 (fst (dd_getitem [] sc s0)) a0)) a0
        (fst (dd_getitem 0 (fst (dd_getitem [] sc s0)) a0) + 1))"
      using inner1 old by (intro list_all_dict_setitem) simp_all
    have "list_all ?Q (dict_setitem (snd (dd_getitem [] sc s0)) s0
        (dict_setitem (snd (dd_getitem 0 (fst (dd_getitem [] sc s0)) a0)) a0
        (fst (dd_getitem 0 (fst (dd_getitem [] sc s0)) a0) + 1)))"
      using sc1 inner2 by (intro list_all_dict_setitem) simp_all
    then show ?thesis
      using s0 Inr by (simp add: increment_def split_beta Let_def counts_nonneg_def)
  qed
qed

lemma counts_nonneg_process_message:
  "counts_nonneg (season_counts w) \<Longrightarrow>
   counts_nonneg (season_counts (snd (process_message loads int_str message w)))"
  by (auto simp: process_message_counts counts_nonneg_increment split: sum.splits json.splits)

lemma counts_nonneg_consume:
  "counts_nonneg (season_counts w) \<Longrightarrow>
   counts_nonneg (season_counts (snd (consume loads int_str consumer w)))"
proof (induction consumer arbitrary: w)
  case Nil
  then show ?case by simp
next
  case (Cons p rest)
  show ?case
  proof (cases p)
    case (Raises e)
    then show ?thesis using Cons.prems by simp
  next
    case (Message offset message_str)
    let ?w1 = "log w DEBUG (Received_at_offset offset message_str)"
    obtain r w2 where p: "process_message loads int_str message_str ?w1 = (r, w2)"
      by (cases "process_message loads int_str message_str ?w1")
    have w2: "counts_nonneg (season_counts w2)"
      using counts_nonneg_process_message [of ?w1 loads int_str message_str] p Cons.prems by simp
    show ?thesis
    proof (cases r)
      case None
      then show ?thesis using Cons.IH [OF w2] p Message by simp
    next
      case (Some e)
      then show ?thesis using w2 p Message by simp
    qed
  qed
qed

lemma season_counts_main:
  "season_counts (snd (main loads int_str getenv consumer w)) =
   season_counts (snd (consume loads int_str consumer
     (log (log (snd (get_kafka_consumer_group_id getenv
        (snd (get_kafka_topic getenv (log w INFO Start_consumer)))))
        INFO (Consumer_topic_group (fst (get_kafka_topic getenv (log w INFO Start_consumer)))
          (fst (get_kafka_consumer_group_id getenv
             (snd (get_kafka_topic getenv (log w INFO Start_consumer)))))))
        INFO (Polling (fst (get_kafka_topic getenv (log w INFO Start_consumer)))))))"
  by (simp add: main_def split_beta Let_def split: option.splits)

lemma counts_nonneg_main:
  assumes "counts_nonneg (season_counts w)"
  shows "counts_nonneg (season_counts (snd (main loads int_str getenv consumer w)))"
proof -
  have "counts_nonneg (season_counts
     (log (log (snd (get_kafka_consumer_group_id getenv
        (snd (get_kafka_topic getenv (log w INFO Start_consumer)))))
        INFO (Consumer_topic_group (fst (get_kafka_topic getenv (log w INFO Start_consumer)))
          (fst (get_kafka_consumer_group_id getenv
             (snd (get_kafka_topic getenv (log w INFO Start_consumer)))))))
        INFO (Polling (fst (get_kafka_topic getenv (log w INFO Start_consumer))))))"
    using assms by (simp add: get_kafka_topic_def get_kafka_consumer_group_id_def Let_def)
  then show ?thesis
    by (simp only: season_counts_main counts_nonneg_consume)
qed

lemma count_of_absent:
  "map_of sc s = None \<or> (\<exists>inner. map_of sc s = Some inner \<and> map_of inner a = None) \<Longrightarrow>
   count_of sc s a = 0"
  by (auto simp: count_of_def dict_get_def)

lemma author_message_counts_reads:
  "set ss \<subseteq> set (map fst sc) \<Longrightarrow>
   fst (author_message_counts sc a ss) = map (\<lambda>s. count_of sc s a) ss"
proof (induction ss)
  case Nil
  then show ?case by simp
next
  case (Cons s ss)
  then have same: "snd (dd_getitem [] sc s) = sc"
    by (simp add: dd_getitem_present)
  from Cons.prems obtain inner where inner: "map_of sc s = Some inner"
    by (cases "map_of sc s") (auto simp: map_of_eq_None_iff)
  then have "fst (dd_getitem [] sc s) = inner"
    by (simp add: dd_getitem_def)
  then have "dict_get (fst (dd_getitem [] sc s)) a 0 = count_of sc s a"
    using inner by (simp add: count_of_def)
  with Cons same show ?case
    by (simp add: split_beta)
qed

lemma count_of_process_message:
  "(\<forall>s a. count_of (season_counts (snd (process_message loads int_str message w))) s a =
       count_of (season_counts w) s a) \<or>
   (\<exists>s0 a0. \<forall>s a. count_of (season_counts (snd (process_message loads int_str message w))) s a =
       count_of (season_counts w) s a + (if s = s0 \<and> a = a0 then 1 else 0))"
proof (cases "loads message")
  case (Inl e)
  then show ?thesis by (simp add: process_message_counts)
next
  case (Inr v)
  show ?thesis
  proof (cases v)
    case (JObj kvs)
    then show ?thesis
      using Inr count_of_increment_any [of "dict_get kvs ''season'' (JStr ''unknown'')"
          "dict_get kvs ''author'' (JStr ''unknown'')" "season_counts w"]
      by (simp add: process_message_counts)
  qed (use Inr in \<open>simp_all add: process_message_counts\<close>)
qed

text \<open>
  Claim C8. The table starts empty. Every operation keeps all stored counts
  non-negative: \<open>process_message\<close>, \<open>update_chart\<close> and \<open>main\<close>. A pair that is absent
  from the table reads as zero, and the counts the renderer reads for one author are
  exactly these readings. \<open>update_chart\<close> returns the table it was given, also though it
  subscripts the \<^verbatim>\<open>defaultdict\<close>. \<open>process_message\<close> either leaves the count of every
  pair as it was or raises the count of exactly one pair by exactly one.
\<close>

theorem season_counts_invariant:
  "counts_nonneg (season_counts init) \<and>
   (counts_nonneg (season_counts w) \<longrightarrow>
      counts_nonneg (season_counts (snd (process_message loads int_str message w))) \<and>
      counts_nonneg (season_counts (snd (update_chart int_str w))) \<and>
      counts_nonneg (season_counts (snd (main loads int_str getenv consumer w)))) \<and>
   (map_of sc s = None \<or> (\<exists>inner. map_of sc s = Some inner \<and> map_of inner a = None) \<longrightarrow>
      count_of sc s a = 0) \<and>
   (set ss \<subseteq> set (map fst sc) \<longrightarrow>
      author_message_counts sc a ss = (map (\<lambda>s. count_of sc s a) ss, sc)) \<and>
   season_counts (snd (update_chart int_str w)) = season_counts w \<and>
   ((\<forall>s a. count_of (season_counts (snd (process_message loads int_str message w))) s a =
        count_of (season_counts w) s a) \<or>
    (\<exists>s0 a0. \<forall>s a. count_of (season_counts (snd (process_message loads int_str message w))) s a =
        count_of (season_counts w) s a + (if s = s0 \<and> a = a0 then 1 else 0)))"
proof -
  have 1: "counts_nonneg (season_counts init)"
    by (simp add: init_def counts_nonneg_def)
  have 2: "counts_nonneg (season_counts w) \<longrightarrow>
      counts_nonneg (season_counts (snd (process_message loads int_str message w))) \<and>
      counts_nonneg (season_counts (snd (update_chart int_str w))) \<and>
      counts_nonneg (season_counts (snd (main loads int_str getenv consumer w)))"
    by (simp add: counts_nonneg_process_message update_chart_counts counts_nonneg_main)
  have 3: "map_of sc s = None \<or> (\<exists>inner. map_of sc s = Some inner \<and> map_of inner a = None) \<longrightarrow>
      count_of sc s a = 0"
    using count_of_absent [of sc s a] by blast
  have 4: "set ss \<subseteq> set (map fst sc) \<longrightarrow>
      author_message_counts sc a ss = (map (\<lambda>s. count_of sc s a) ss, sc)"
    using author_message_counts_reads [of ss sc a] author_message_counts_counts [of ss sc a]
    by (simp add: prod_eq_iff)
  have 5: "season_counts (snd (update_chart int_str w)) = season_counts w"
    by (rule update_chart_counts)
  show ?thesis
    using 1 2 3 4 5 count_of_process_message [of loads int_str message w] by blast
qed

theorem season_counts_invariant_witness:
  \<open>counts_nonneg [(KStr ''1'', [(KStr ''Homer'', 1)])] \<and>
   counts_nonneg (season_counts (snd (process_message sample_loads sample_int
      ''{"author": "Homer", "season": "1"}''
      \<lparr>season_counts = [(KStr ''1'', [(KStr ''Homer'', 1)])], trace = []\<rparr>))) \<and>
   map_of [(KStr ''1'', [(KStr ''Homer'', 1)])] (KStr ''1'') = Some [(KStr ''Homer'', 1)] \<and>
   map_of [(KStr ''Homer'', 1::int)] (KStr ''Bart'') = None \<and>
   count_of [(KStr ''1'', [(KStr ''Homer'', 1)])] (KStr ''1'') (KStr ''Bart'') = 0 \<and>
   author_message_counts [(KStr ''1'', [(KStr ''Homer'', 1)])] (KStr ''Bart'') [KStr ''1''] =
     ([0], [(KStr ''1'', [(KStr ''Homer'', 1)])]) \<and>
   season_counts (snd (process_message sample_loads sample_int ''{"author": "Homer", "season": "1"}''
      \<lparr>season_counts = [(KStr ''1'', [(KStr ''Homer'', 1)])], trace = []\<rparr>)) =
     [(KStr ''1'', [(KStr ''Homer'', 2)])]\<close>
proof -
  let ?sc = "[(KStr ''1'', [(KStr ''Homer'', 1::int)])]"
  let ?w = "\<lparr>season_counts = ?sc, trace = []\<rparr>"
  have h: "counts_nonneg (season_counts ?w)"
    by (simp add: counts_nonneg_def)
  have a: "map_of ?sc (KStr ''1'') = None \<or>
      (\<exists>inner. map_of ?sc (KStr ''1'') = Some inner \<and> map_of inner (KStr ''Bart'') = None)"
    by simp
  have s: "set [KStr ''1''] \<subseteq> set (map fst ?sc)"
    by simp
  have e: \<open>season_counts (snd (process_message sample_loads sample_int ''{"author": "Homer", "season": "1"}'' ?w)) =
     [(KStr ''1'', [(KStr ''Homer'', 2)])]\<close>
    by code_simp
  show ?thesis
    using h a s e
      season_counts_invariant [where w = ?w and loads = sample_loads and int_str = sample_int
        and message = \<open>''{"author": "Homer", "season": "1"}''\<close> and sc = ?sc
        and s = "KStr ''1''" and a = "KStr ''Bart''" and ss = "[KStr ''1'']"]
    by simp
qed

section \<open>Order of the seasons\<close>

text \<open>
  Claim C5. The renderer enumerates the seasons in ascending order of their value as
  integers. Whatever \<^verbatim>\<open>int\<close> does on strings, for every table whose season keys it
  accepts (the claim reads the keys as integers; C10 is the other case),
  \<open>sorted_seasons\<close> is the stable sort of the keys by \<^verbatim>\<open>int\<close>: it is ascending and has the
  same keys. Every plotting call that is given x positions is given exactly this list,
  the first bar is always drawn at it, and so are the ticks when the redraw completes.
  Since \<^verbatim>\<open>int\<close> reads \<open>2\<close>, \<open>10\<close> and \<open>1\<close> as the numbers two, ten and one, these keys come
  out as \<open>1\<close>, \<open>2\<close>, \<open>10\<close>, where the order of the strings would be \<open>1\<close>, \<open>10\<close>, \<open>2\<close>.
\<close>

theorem seasons_drawn_in_numeric_order:
  assumes "\<forall>k \<in> set (map fst (season_counts w)). \<not> isl (py_int int_str k)"
  shows "let keys = map fst (season_counts w);
             ss = sort_key (int_of_key int_str) keys;
             calls = plot_calls (emitted w (snd (update_chart int_str w)))
         in sorted_by_int int_str keys = Inr ss \<and>
            sorted (map (int_of_key int_str) ss) \<and> set ss = set keys \<and> length ss = length keys \<and>
            (\<forall>c \<in> set calls. x_positions c = None \<or> x_positions c = Some ss) \<and>
            (\<exists>cnts. Ax_bar ss cnts (replicate (length ss) 0) ''yellow'' ''Homer'' \<in> set calls) \<and>
            (fst (update_chart int_str w) = None \<longrightarrow>
               Set_xticks ss \<in> set calls \<and> Set_xticklabels ss \<in> set calls) \<and>
            (int_str ''2'' = Some 2 \<and> int_str ''10'' = Some 10 \<and> int_str ''1'' = Some 1 \<longrightarrow>
               sorted_by_int int_str [KStr ''2'', KStr ''10'', KStr ''1''] =
                 Inr [KStr ''1'', KStr ''2'', KStr ''10''])"
proof -
  define keys where "keys = map fst (season_counts w)"
  define ss where "ss = sort_key (int_of_key int_str) keys"
  define calls where "calls = plot_calls (emitted w (snd (update_chart int_str w)))"
  have s: "sorted_by_int int_str (map fst (season_counts w)) = Inr ss"
    using sorted_by_int_ok [OF assms] by (simp add: ss_def keys_def)
  obtain cs r sc2 where a:
    "author_loop author_colors ss (fst (season_totals (season_counts w) ss []))
       (replicate (length ss) 0) (season_counts w) = (cs, r, sc2)"
    by (cases "author_loop author_colors ss (fst (season_totals (season_counts w) ss []))
       (replicate (length ss) 0) (season_counts w)")
  have r: "fst (update_chart int_str w) = r"
    using update_chart_draws(1) [OF s a] .
  have c: "calls = Ax_clear # cs @
             (if r = None then
                [Set_xlabel ''Seasons'', Set_ylabel ''Message Counts'',
                 Set_title ''The Simpsons Most Memorable Leader (Seasons 1-30)'',
                 Set_xticks ss, Set_xticklabels ss, Legend, Tight_layout, Draw, Pause]
              else [])"
    using update_chart_draws(2) [OF s a] by (simp add: calls_def)
  have x: "\<forall>c \<in> set cs. x_positions c = None \<or> x_positions c = Some ss"
    using author_loop_x_positions [of _ author_colors ss
        "fst (season_totals (season_counts w) ss [])" "replicate (length ss) 0" "season_counts w"] a
    by simp
  have 1: "sorted (map (int_of_key int_str) ss)"
    by (simp add: ss_def)
  have 2: "set ss = set keys" "length ss = length keys"
    by (simp_all add: ss_def)
  have 3: "\<forall>c \<in> set calls. x_positions c = None \<or> x_positions c = Some ss"
    using x by (auto simp: c)
  have "\<exists>cnts. Ax_bar ss cnts (replicate (length ss) 0) ''yellow'' ''Homer'' \<in> set cs"
    using author_loop_first_bar [of ss "replicate (length ss) 0" "''yellow''" "''Homer''"
        "tl author_colors" "fst (season_totals (season_counts w) ss [])" "season_counts w"] a
    by (simp add: author_colors_def)
  then have 4: "\<exists>cnts. Ax_bar ss cnts (replicate (length ss) 0) ''yellow'' ''Homer'' \<in> set calls"
    by (auto simp: c)
  have 5: "fst (update_chart int_str w) = None \<longrightarrow>
      Set_xticks ss \<in> set calls \<and> Set_xticklabels ss \<in> set calls"
    by (simp add: r c)
  have 6: "int_str ''2'' = Some 2 \<and> int_str ''10'' = Some 10 \<and> int_str ''1'' = Some 1 \<longrightarrow>
      sorted_by_int int_str [KStr ''2'', KStr ''10'', KStr ''1''] =
        Inr [KStr ''1'', KStr ''2'', KStr ''10'']"
    by (simp add: sorted_by_int_def)
  show ?thesis
    using s 1 2 3 4 5 6
    unfolding Let_def keys_def [symmetric] ss_def [symmetric] calls_def [symmetric]
    by (simp add: keys_def)
qed

theorem seasons_drawn_in_numeric_order_witness:
  "\<not> isl (py_int sample_int (KStr ''2'')) \<and> \<not> isl (py_int sample_int (KStr ''10'')) \<and>
   \<not> isl (py_int sample_int (KStr ''1'')) \<and>
   sorted_by_int sample_int (map fst (season_counts
        \<lparr>season_counts = [(KStr ''2'', [(KStr ''Homer'', 1)]), (KStr ''10'', [(KStr ''Homer'', 1)]),
                          (KStr ''1'', [(KStr ''Homer'', 1)])], trace = []\<rparr>)) =
     Inr [KStr ''1'', KStr ''2'', KStr ''10''] \<and>
   list_all (\<lambda>c. x_positions c = None \<or> x_positions c = Some [KStr ''1'', KStr ''2'', KStr ''10''])
     (plot_calls (emitted
        \<lparr>season_counts = [(KStr ''2'', [(KStr ''Homer'', 1)]), (KStr ''10'', [(KStr ''Homer'', 1)]),
                          (KStr ''1'', [(KStr ''Homer'', 1)])], trace = []\<rparr>
        (snd (update_chart sample_int
        \<lparr>season_counts = [(KStr ''2'', [(KStr ''Homer'', 1)]), (KStr ''10'', [(KStr ''Homer'', 1)]),
                          (KStr ''1'', [(KStr ''Homer'', 1)])], trace = []\<rparr>)))) \<and>
   Set_xticks [KStr ''1'', KStr ''2'', KStr ''10''] \<in> set
     (plot_calls (emitted
        \<lparr>season_counts = [(KStr ''2'', [(KStr ''Homer'', 1)]), (KStr ''10'', [(KStr ''Homer'', 1)]),
                          (KStr ''1'', [(KStr ''Homer'', 1)])], trace = []\<rparr>
        (snd (update_chart sample_int
        \<lparr>season_counts = [(KStr ''2'', [(KStr ''Homer'', 1)]), (KStr ''10'', [(KStr ''Homer'', 1)]),
                          (KStr ''1'', [(KStr ''Homer'', 1)])], trace = []\<rparr>))))"
proof -
  let ?w = "\<lparr>season_counts = [(KStr ''2'', [(KStr ''Homer'', 1)]), (KStr ''10'', [(KStr ''Homer'', 1)]),
                          (KStr ''1'', [(KStr ''Homer'', 1)])], trace = []\<rparr>"
  have k: "\<not> isl (py_int sample_int (KStr ''2''))" "\<not> isl (py_int sample_int (KStr ''10''))"
    "\<not> isl (py_int sample_int (KStr ''1''))"
    by code_simp+
  then have h: "\<forall>k \<in> set (map fst (season_counts ?w)). \<not> isl (py_int sample_int k)"
    by simp
  have e: "sort_key (int_of_key sample_int) (map fst (season_counts ?w)) = [KStr ''1'', KStr ''2'', KStr ''10'']"
    by code_simp
  have r: "fst (update_chart sample_int ?w) = None"
    by code_simp
  show ?thesis
    using k r seasons_drawn_in_numeric_order [OF h] unfolding Let_def e list_all_iff by blast
qed

section \<open>Authors without a colour\<close>

text \<open>
  Claim C9. The bars \<open>update_chart\<close> draws carry, in this order, the authors of
  \<open>author_colors\<close>: Homer, Bart, Marge, Lisa, Maggie. When the redraw completes these are
  exactly its bars, and when it raises they are the first of them. So an author who has
  no colour gets no bar, neither from \<open>update_chart\<close> nor from a whole \<open>process_message\<close>.
  The count of such an author is recorded all the same: a message with the string
  author \<open>A\<close> and the string season \<open>S\<close> raises the count of \<open>(S, A)\<close> by one, whoever \<open>A\<close> is.
\<close>

theorem only_authors_with_a_colour_are_drawn:
  "prefix (bar_labels (plot_calls (emitted w (snd (update_chart int_str w))))) (map fst author_colors) \<and>
   (fst (update_chart int_str w) = None \<longrightarrow>
      bar_labels (plot_calls (emitted w (snd (update_chart int_str w)))) =
        [''Homer'', ''Bart'', ''Marge'', ''Lisa'', ''Maggie'']) \<and>
   (A \<notin> set (map fst author_colors) \<longrightarrow>
      A \<notin> set (bar_labels (plot_calls (emitted w (snd (update_chart int_str w))))) \<and>
      A \<notin> set (bar_labels (plot_calls (emitted w (snd (process_message loads int_str message w)))))) \<and>
   (loads message = Inr (JObj kvs) \<and> map_of kvs ''author'' = Some (JStr A) \<and>
    map_of kvs ''season'' = Some (JStr S) \<longrightarrow>
      count_of (season_counts (snd (process_message loads int_str message w))) (KStr S) (KStr A) =
        count_of (season_counts w) (KStr S) (KStr A) + 1)"
proof -
  have p: "prefix (bar_labels (plot_calls (emitted w' (snd (update_chart int_str w')))))
      (map fst author_colors)" for w'
    using update_chart_bar_labels [of w' int_str] by blast
  have 1: "fst (update_chart int_str w) = None \<longrightarrow>
      bar_labels (plot_calls (emitted w (snd (update_chart int_str w)))) =
        [''Homer'', ''Bart'', ''Marge'', ''Lisa'', ''Maggie'']"
    using update_chart_bar_labels [of w int_str] by (simp add: author_colors_def)
  have "prefix (bar_labels (plot_calls (emitted w (snd (process_message loads int_str message w)))))
      (map fst author_colors)"
    by (auto simp: process_message_plot_calls p
        split: sum.splits json.splits option.splits prod.splits)
  then have 2: "A \<notin> set (map fst author_colors) \<longrightarrow>
      A \<notin> set (bar_labels (plot_calls (emitted w (snd (update_chart int_str w))))) \<and>
      A \<notin> set (bar_labels (plot_calls (emitted w (snd (process_message loads int_str message w)))))"
    using p [of w] set_mono_prefix by blast
  have 3: "loads message = Inr (JObj kvs) \<and> map_of kvs ''author'' = Some (JStr A) \<and>
    map_of kvs ''season'' = Some (JStr S) \<longrightarrow>
      count_of (season_counts (snd (process_message loads int_str message w))) (KStr S) (KStr A) =
        count_of (season_counts w) (KStr S) (KStr A) + 1"
    using count_of_increment [of "JStr S" "KStr S" "JStr A" "KStr A" "season_counts w"
        "KStr S" "KStr A"]
    by (auto simp: process_message_counts dict_get_def)
  show ?thesis
    using p [of w] 1 2 3 by blast
qed

theorem only_authors_with_a_colour_are_drawn_witness:
  \<open>''Ned'' \<notin> set (map fst author_colors) \<and>
   sample_loads ''{"author": "Ned", "season": "3"}'' =
     Inr (JObj [(''author'', JStr ''Ned''), (''season'', JStr ''3'')]) \<and>
   bar_labels (plot_calls (emitted init
       (snd (process_message sample_loads sample_int ''{"author": "Ned", "season": "3"}'' init)))) =
     [''Homer'', ''Bart'', ''Marge'', ''Lisa'', ''Maggie''] \<and>
   ''Ned'' \<notin> set (bar_labels (plot_calls (emitted init
       (snd (process_message sample_loads sample_int ''{"author": "Ned", "season": "3"}'' init))))) \<and>
   count_of (season_counts
       (snd (process_message sample_loads sample_int ''{"author": "Ned", "season": "3"}'' init)))
     (KStr ''3'') (KStr ''Ned'') = 1\<close>
proof -
  have n: "''Ned'' \<notin> set (map fst author_colors)"
    by (simp add: author_colors_def)
  have h: \<open>sample_loads ''{"author": "Ned", "season": "3"}'' =
     Inr (JObj [(''author'', JStr ''Ned''), (''season'', JStr ''3'')])\<close>
    by (simp add: sample_loads_def)
  have m: "map_of [(''author'', JStr ''Ned''), (''season'', JStr ''3'')] ''author'' =
      Some (JStr ''Ned'')"
    "map_of [(''author'', JStr ''Ned''), (''season'', JStr ''3'')] ''season'' = Some (JStr ''3'')"
    by simp_all
  have b: \<open>bar_labels (plot_calls (emitted init
       (snd (process_message sample_loads sample_int ''{"author": "Ned", "season": "3"}'' init)))) =
     [''Homer'', ''Bart'', ''Marge'', ''Lisa'', ''Maggie'']\<close>
    by code_simp
  have c: "count_of (season_counts init) (KStr ''3'') (KStr ''Ned'') = 0"
    by (simp add: init_def count_of_def)
  show ?thesis
    using n h m b c
      only_authors_with_a_colour_are_drawn [where w = init and int_str = sample_int and A = "''Ned''" and S = "''3''"
        and loads = sample_loads and message = \<open>''{"author": "Ned", "season": "3"}''\<close>
        and kvs = "[(''author'', JStr ''Ned''), (''season'', JStr ''3'')]"]
    by simp
qed

section \<open>A season that is no integer\<close>

lemma set_keys_dict_setitem:
  "fst ` set (dict_setitem d k v) = insert k (fst ` set d)"
  by (induction d) auto

lemma keys_dd_getitem:
  "fst ` set (snd (dd_getitem dflt d k)) = insert k (fst ` set d)"
proof (cases "map_of d k")
  case None
  then show ?thesis by (simp add: dd_getitem_def set_keys_dict_setitem)
next
  case (Some v)
  then have "k \<in> fst ` set d"
    by (auto dest: map_of_SomeD intro: rev_image_eqI)
  then show ?thesis using Some by (auto simp: dd_getitem_def)
qed

lemma keys_increment:
  assumes "to_key season = Inr s0" and "to_key author = Inr a0"
  shows "fst ` set (snd (increment season author sc)) = insert s0 (fst ` set sc)"
proof -
  have "fst ` set (dict_setitem (snd (dd_getitem [] sc s0)) s0 v) =
        insert s0 (fst ` set sc)" for v
    using keys_dd_getitem [of "[]" sc s0] by (simp add: set_keys_dict_setitem)
  then show ?thesis
    using assms by (simp add: increment_def split_beta Let_def)
qed

lemma int_keys_raises:
  "int_keys int_str ks = Inl e \<Longrightarrow> \<exists>k \<in> set ks. py_int int_str k = Inl e"
  by (induction ks) (auto split: sum.splits)

text \<open>
  Claim C10. Let the payload decode to an object whose season and author are hashable,
  and let \<^verbatim>\<open>int\<close> reject the season of the message or a season already in the table: a
  string that \<^verbatim>\<open>int\<close> does not read as an integer, such as the default \<open>unknown\<close>, or
  \<^verbatim>\<open>None\<close>, \<^verbatim>\<open>NaN\<close> or an infinity. Then the increment is applied and stays, \<open>update_chart\<close>
  clears the axes and raises at the sort what \<^verbatim>\<open>int\<close> raises on a key of the table
  (\<open>ValueError\<close>, \<open>TypeError\<close> or \<open>OverflowError\<close>), and the generic handler of
  \<open>process_message\<close> logs it: \<open>process_message\<close> returns normally, and the only plotting
  call of the message is \<^verbatim>\<open>ax.clear()\<close>, so no bar, no label and no redraw are made for it.
  A message without a season has the season \<open>unknown\<close>, on which \<^verbatim>\<open>int\<close> raises
  \<open>ValueError\<close>.
\<close>

theorem failed_sort_keeps_increment:
  assumes "loads message = Inr (JObj kvs)"
    and "to_key (dict_get kvs ''season'' (JStr ''unknown'')) = Inr s0"
    and "to_key (dict_get kvs ''author'' (JStr ''unknown'')) = Inr a0"
    and "isl (py_int int_str s0) \<or> (\<exists>k \<in> set (map fst (season_counts w)). isl (py_int int_str k))"
  shows "\<exists>e sc'. (e = ValueError \<or> e = TypeError \<or> e = OverflowError) \<and>
      (\<exists>k \<in> set (map fst sc'). py_int int_str k = Inl e) \<and>
      increment (dict_get kvs ''season'' (JStr ''unknown''))
         (dict_get kvs ''author'' (JStr ''unknown'')) (season_counts w) = (None, sc') \<and>
      update_chart int_str (w\<lparr>season_counts := sc'\<rparr>) =
         (Some e, w\<lparr>season_counts := sc', trace := trace w @ [Plot Ax_clear]\<rparr>) \<and>
      process_message loads int_str message w =
        (None, w\<lparr>season_counts := sc',
                  trace := trace w @
                    [Log DEBUG (Raw_message message), Log INFO (Processed_JSON (JObj kvs)),
                     Log INFO (Message_received (dict_get kvs ''author'' (JStr ''unknown''))
                                 (dict_get kvs ''season'' (JStr ''unknown''))),
                     Log INFO (Updated_season_counts sc'), Plot Ax_clear,
                     Log ERROR (Error_processing e)]\<rparr>) \<and>
      (\<forall>s a. count_of sc' s a =
         count_of (season_counts w) s a + (if s = s0 \<and> a = a0 then 1 else 0)) \<and>
      (map_of kvs ''season'' = None \<longrightarrow> s0 = KStr ''unknown'') \<and>
      (int_str ''unknown'' = None \<longrightarrow> py_int int_str (KStr ''unknown'') = Inl ValueError)"
proof -
  let ?season = "dict_get kvs ''season'' (JStr ''unknown'')"
  let ?author = "dict_get kvs ''author'' (JStr ''unknown'')"
  define sc' where "sc' = snd (increment ?season ?author (season_counts w))"
  have inc: "increment ?season ?author (season_counts w) = (None, sc')"
    using increment_ok [OF assms(2) assms(3), of "season_counts w"]
    by (simp add: sc'_def prod_eq_iff)
  have "fst ` set sc' = insert s0 (fst ` set (season_counts w))"
    using keys_increment [OF assms(2) assms(3)] by (simp add: sc'_def)
  then have "\<exists>k \<in> set (map fst sc'). isl (py_int int_str k)"
    using assms(4) by auto
  then obtain e where e: "sorted_by_int int_str (map fst sc') = Inl e"
    "e = TypeError \<or> e = ValueError \<or> e = OverflowError"
    using sorted_by_int_fails by blast
  have u: "update_chart int_str w' = (Some e, plot w' [Ax_clear])" if "season_counts w' = sc'" for w'
    using e(1) that by (simp add: update_chart_fails)
  have 1: "update_chart int_str (w\<lparr>season_counts := sc'\<rparr>) =
         (Some e, w\<lparr>season_counts := sc', trace := trace w @ [Plot Ax_clear]\<rparr>)"
    using u [of "w\<lparr>season_counts := sc'\<rparr>"] by (simp add: plot_def)
  have 2: "process_message loads int_str message w =
        (None, w\<lparr>season_counts := sc',
                  trace := trace w @
                    [Log DEBUG (Raw_message message), Log INFO (Processed_JSON (JObj kvs)),
                     Log INFO (Message_received ?author ?season),
                     Log INFO (Updated_season_counts sc'), Plot Ax_clear,
                     Log ERROR (Error_processing e)]\<rparr>)"
    using assms(1) inc e(2) u
    by (auto simp: process_message_def process_message_try_def log_def plot_def)
  have 3: "\<forall>s a. count_of sc' s a =
         count_of (season_counts w) s a + (if s = s0 \<and> a = a0 then 1 else 0)"
    using count_of_increment [OF assms(2) assms(3)] by (simp add: sc'_def)
  have 4: "map_of kvs ''season'' = None \<longrightarrow> s0 = KStr ''unknown''"
    using assms(2) by (auto simp: dict_get_def)
  have 5: "int_str ''unknown'' = None \<longrightarrow> py_int int_str (KStr ''unknown'') = Inl ValueError"
    by simp
  have 6: "\<exists>k \<in> set (map fst sc'). py_int int_str k = Inl e"
    using e(1) int_keys_raises [of int_str "map fst sc'" e]
    by (auto simp: sorted_by_int_def split: sum.splits)
  show ?thesis
    by (intro exI [of _ e] exI [of _ sc'] conjI) (use e(2) inc 1 2 3 4 5 6 in \<open>blast+\<close>)
qed

theorem failed_sort_keeps_increment_witness:
  \<open>sample_loads ''{"author": "Bart"}'' = Inr (JObj [(''author'', JStr ''Bart'')]) \<and>
   to_key (dict_get [(''author'', JStr ''Bart'')] ''season'' (JStr ''unknown'')) =
     Inr (KStr ''unknown'') \<and>
   to_key (dict_get [(''author'', JStr ''Bart'')] ''author'' (JStr ''unknown'')) =
     Inr (KStr ''Bart'') \<and>
   isl (py_int sample_int (KStr ''unknown'')) \<and>
   process_message sample_loads sample_int ''{"author": "Bart"}'' init =
     (None, \<lparr>season_counts = [(KStr ''unknown'', [(KStr ''Bart'', 1)])],
             trace = [Log DEBUG (Raw_message ''{"author": "Bart"}''),
                      Log INFO (Processed_JSON (JObj [(''author'', JStr ''Bart'')])),
                      Log INFO (Message_received (JStr ''Bart'') (JStr ''unknown'')),
                      Log INFO (Updated_season_counts [(KStr ''unknown'', [(KStr ''Bart'', 1)])]),
                      Plot Ax_clear, Log ERROR (Error_processing ValueError)]\<rparr>)\<close>
proof -
  have h1: \<open>sample_loads ''{"author": "Bart"}'' = Inr (JObj [(''author'', JStr ''Bart'')])\<close>
    by (simp add: sample_loads_def)
  have h2: "to_key (dict_get [(''author'', JStr ''Bart'')] ''season'' (JStr ''unknown'')) =
     Inr (KStr ''unknown'')"
    by (simp add: dict_get_def)
  have h3: "to_key (dict_get [(''author'', JStr ''Bart'')] ''author'' (JStr ''unknown'')) =
     Inr (KStr ''Bart'')"
    by (simp add: dict_get_def)
  have u: "isl (py_int sample_int (KStr ''unknown''))"
    by code_simp
  then have h4: "isl (py_int sample_int (KStr ''unknown'')) \<or>
      (\<exists>k \<in> set (map fst (season_counts init)). isl (py_int sample_int k))"
    by simp
  obtain e sc' where e: "\<exists>k \<in> set (map fst sc'). py_int sample_int k = Inl e"
    and i: "increment (dict_get [(''author'', JStr ''Bart'')] ''season'' (JStr ''unknown''))
         (dict_get [(''author'', JStr ''Bart'')] ''author'' (JStr ''unknown''))
         (season_counts init) = (None, sc')"
    and c: "update_chart sample_int (init\<lparr>season_counts := sc'\<rparr>) =
         (Some e, init\<lparr>season_counts := sc', trace := trace init @ [Plot Ax_clear]\<rparr>)"
    and p: \<open>process_message sample_loads sample_int ''{"author": "Bart"}'' init =
        (None, init\<lparr>season_counts := sc',
                  trace := trace init @
                    [Log DEBUG (Raw_message ''{"author": "Bart"}''),
                     Log INFO (Processed_JSON (JObj [(''author'', JStr ''Bart'')])),
                     Log INFO (Message_received
                        (dict_get [(''author'', JStr ''Bart'')] ''author'' (JStr ''unknown''))
                        (dict_get [(''author'', JStr ''Bart'')] ''season'' (JStr ''unknown''))),
                     Log INFO (Updated_season_counts sc'), Plot Ax_clear,
                     Log ERROR (Error_processing e)]\<rparr>)\<close>
    using failed_sort_keeps_increment [where loads = sample_loads and int_str = sample_int
        and w = init, OF h1 h2 h3 h4]
    by blast
  have sc': "sc' = [(KStr ''unknown'', [(KStr ''Bart'', 1)])]"
    using i by (simp add: increment_def dd_getitem_def dict_get_def init_def)
  have "e = ValueError"
    using e by (simp add: sc' sample_int_def)
  then show ?thesis
    using h1 h2 h3 u p by (simp add: sc' init_def dict_get_def)
qed

section \<open>The percentage labels\<close>

lemma text_labels_append [simp]: "text_labels (xs @ ys) = text_labels xs @ text_labels ys"
  by (induction xs rule: text_labels.induct) simp_all












end
